theory Spec2Isabelle
  imports Main "HOL-Library.Word"
begin

unbundle bit_operations_syntax

section \<open>Results, bytes and slices\<close>

text \<open>
  The Go code of \<^verbatim>\<open>pkg/sentry/socket/netfilter/netfilter.go\<close> has three outcomes:
  a value, a returned error (a Go \<^verbatim>\<open>error\<close> or \<^verbatim>\<open>syserr.ErrInvalidArgument\<close>) and
  a panic. All three are values of the model.
\<close>

type_synonym byte = "8 word"

datatype error =
    ErrInvalidArgument
  | ErrTableNameTooLong
  | ErrUnsupportedVerdictQueue
  | ErrUnsupportedVerdictReturn
  | ErrUnknownIptablesVerdict "32 word"
  | ErrInsufficientSizeEntryMatch
  | ErrMatchSizeTooSmall
  | ErrInsufficientSizeMatch
  | ErrFailedToCreateMatcher
  | ErrNotExhausted
  | ErrInsufficientSizeEntryTarget
  | ErrWrongSizeStandardTarget
  | ErrUnknownVerdict
  | ErrWrongSizeErrorTarget
  | ErrUnknownErrorTarget
  | ErrUnknownTarget
  | ErrUnsupportedIPTIP
  | ErrCouldNotFindTable

datatype 'a result = Ok 'a | Err error | Panic

fun rbind :: "'a result \<Rightarrow> ('a \<Rightarrow> 'b result) \<Rightarrow> 'b result" where
  "rbind (Ok x) f = f x"
| "rbind (Err e) f = Err e"
| "rbind Panic f = Panic"

text \<open>
  Go slice expressions. \<^verbatim>\<open>s[:n]\<close>, \<^verbatim>\<open>s[n:]\<close> and \<^verbatim>\<open>s[lo:hi]\<close> panic when an index
  is out of range. The model panics as soon as an index exceeds \<^verbatim>\<open>len(s)\<close> (Go allows
  \<^verbatim>\<open>hi\<close> up to \<^verbatim>\<open>cap(s)\<close>), so a model run without panic never reads beyond the
  length of the buffer.
\<close>

definition slice_to :: "'a list \<Rightarrow> nat \<Rightarrow> 'a list result" where
  "slice_to s n = (if n \<le> length s then Ok (take n s) else Panic)"

definition slice_from :: "'a list \<Rightarrow> nat \<Rightarrow> 'a list result" where
  "slice_from s n = (if n \<le> length s then Ok (drop n s) else Panic)"

definition slice :: "'a list \<Rightarrow> nat \<Rightarrow> nat \<Rightarrow> 'a list result" where
  "slice s lo hi = (if lo \<le> hi \<and> hi \<le> length s then Ok (take (hi - lo) (drop lo s)) else Panic)"

text \<open>The bytes of a field at a fixed position of a buffer that is long enough.\<close>

definition bytes_at :: "nat \<Rightarrow> nat \<Rightarrow> byte list \<Rightarrow> byte list" where
  "bytes_at off n buf = take n (drop off buf)"

text \<open>\<^verbatim>\<open>usermem.ByteOrder\<close> is little endian.\<close>

definition u16_le :: "byte list \<Rightarrow> 16 word" where
  "u16_le bs = ucast (bs ! 0) OR push_bit 8 (ucast (bs ! 1))"

definition u32_le :: "byte list \<Rightarrow> 32 word" where
  "u32_le bs = ucast (bs ! 0) OR push_bit 8 (ucast (bs ! 1))
     OR push_bit 16 (ucast (bs ! 2)) OR push_bit 24 (ucast (bs ! 3))"

definition u64_le :: "byte list \<Rightarrow> 64 word" where
  "u64_le bs = ucast (u32_le (take 4 bs)) OR push_bit 32 (ucast (u32_le (drop 4 bs)))"

definition put_u16 :: "16 word \<Rightarrow> byte list" where
  "put_u16 w = [ucast w, ucast (drop_bit 8 w)]"

definition put_u32 :: "32 word \<Rightarrow> byte list" where
  "put_u32 w = [ucast w, ucast (drop_bit 8 w), ucast (drop_bit 16 w), ucast (drop_bit 24 w)]"

definition put_u64 :: "64 word \<Rightarrow> byte list" where
  "put_u64 w = put_u32 (ucast w) @ put_u32 (ucast (drop_bit 32 w))"

text \<open>Go's \<^verbatim>\<open>copy(dst[:], s)\<close> into a zeroed array of \<open>n\<close> bytes.\<close>

definition copy_into :: "nat \<Rightarrow> byte list \<Rightarrow> byte list" where
  "copy_into n s = take n s @ replicate (n - length s) 0"

text \<open>A Go string is its bytes.\<close>

definition str :: "string \<Rightarrow> byte list" where
  "str s = map of_char s"

text \<open>
  \<^verbatim>\<open>goString\<close>, behind \<^verbatim>\<open>TableName.String\<close>, \<^verbatim>\<open>ExtensionName.String\<close> and
  \<^verbatim>\<open>ErrorName.String\<close>: the bytes before the first NUL.
\<close>

definition goString :: "byte list \<Rightarrow> byte list" where
  "goString cstring = takeWhile (\<lambda>c. c \<noteq> 0) cstring"

section \<open>The ABI of package linux\<close>

text \<open>
  Modelled from the spec: the constants and record shapes of \<^verbatim>\<open>pkg/abi/linux\<close> are
  not part of the source file. The spec names them the fixed record shapes of the legacy
  firewall ABI (entry header, matcher-extension header, target-extension headers, replace
  header); the values below are those of that ABI
  (\<^verbatim>\<open>include/uapi/linux/netfilter.h\<close>, \<^verbatim>\<open>x_tables.h\<close>, \<^verbatim>\<open>ip_tables.h\<close>).
\<close>

definition NF_DROP :: int where "NF_DROP = 0"
definition NF_ACCEPT :: int where "NF_ACCEPT = 1"
definition NF_QUEUE :: int where "NF_QUEUE = 3"
definition NF_REPEAT :: int where "NF_REPEAT = 4"
definition NF_RETURN :: int where "NF_RETURN = - NF_REPEAT - 1"

definition NF_INET_PRE_ROUTING :: nat where "NF_INET_PRE_ROUTING = 0"
definition NF_INET_LOCAL_IN :: nat where "NF_INET_LOCAL_IN = 1"
definition NF_INET_FORWARD :: nat where "NF_INET_FORWARD = 2"
definition NF_INET_LOCAL_OUT :: nat where "NF_INET_LOCAL_OUT = 3"
definition NF_INET_POST_ROUTING :: nat where "NF_INET_POST_ROUTING = 4"
definition NF_INET_NUMHOOKS :: nat where "NF_INET_NUMHOOKS = 5"

definition XT_FUNCTION_MAXNAMELEN :: nat where "XT_FUNCTION_MAXNAMELEN = 30"
definition XT_EXTENSION_MAXNAMELEN :: nat where "XT_EXTENSION_MAXNAMELEN = 29"
definition XT_TABLE_MAXNAMELEN :: nat where "XT_TABLE_MAXNAMELEN = 32"
definition IFNAMSIZ :: nat where "IFNAMSIZ = 16"

definition SizeOfIPTReplace :: nat where "SizeOfIPTReplace = 96"
definition SizeOfIPTEntry :: nat where "SizeOfIPTEntry = 112"
definition SizeOfXTEntryMatch :: nat where "SizeOfXTEntryMatch = 32"
definition SizeOfXTEntryTarget :: nat where "SizeOfXTEntryTarget = 32"
definition SizeOfXTStandardTarget :: nat where "SizeOfXTStandardTarget = 40"
definition SizeOfXTErrorTarget :: nat where "SizeOfXTErrorTarget = 64"

named_theorems abi \<open>the constants of the ABI\<close>

lemmas abi_consts [abi] =
  NF_DROP_def NF_ACCEPT_def NF_QUEUE_def NF_REPEAT_def NF_RETURN_def
  NF_INET_PRE_ROUTING_def NF_INET_LOCAL_IN_def NF_INET_FORWARD_def NF_INET_LOCAL_OUT_def
  NF_INET_POST_ROUTING_def NF_INET_NUMHOOKS_def
  XT_FUNCTION_MAXNAMELEN_def XT_EXTENSION_MAXNAMELEN_def XT_TABLE_MAXNAMELEN_def IFNAMSIZ_def
  SizeOfIPTReplace_def SizeOfIPTEntry_def SizeOfXTEntryMatch_def SizeOfXTEntryTarget_def
  SizeOfXTStandardTarget_def SizeOfXTErrorTarget_def

text \<open>\<^verbatim>\<open>struct ipt_ip\<close>: four addresses, four interface names, protocol and flags.\<close>

record IPTIP =
  ip_Src :: "byte list"
  ip_Dst :: "byte list"
  ip_SrcMask :: "byte list"
  ip_DstMask :: "byte list"
  ip_InputInterface :: "byte list"
  ip_OutputInterface :: "byte list"
  ip_InputInterfaceMask :: "byte list"
  ip_OutputInterfaceMask :: "byte list"
  ip_Protocol :: "16 word"
  ip_Flags :: byte
  ip_InverseFlags :: byte

text \<open>\<^verbatim>\<open>struct ipt_entry\<close> without its trailing elements.\<close>

record IPTEntry =
  en_IP :: IPTIP
  en_NFCache :: "32 word"
  en_TargetOffset :: "16 word"
  en_NextOffset :: "16 word"
  en_Comeback :: "32 word"
  en_Pcnt :: "64 word"
  en_Bcnt :: "64 word"

text \<open>\<^verbatim>\<open>KernelIPTEntry\<close>: an entry and the bytes of its matchers and target.\<close>

record KernelIPTEntry =
  ke_IPTEntry :: IPTEntry
  ke_Elems :: "byte list"

text \<open>\<^verbatim>\<open>KernelIPTGetEntries\<close>: table name, total size and the entries.\<close>

record KernelIPTGetEntries =
  ge_Name :: "byte list"
  ge_Size :: "32 word"
  ge_Entrytable :: "KernelIPTEntry list"

text \<open>\<^verbatim>\<open>struct xt_entry_match\<close> and \<^verbatim>\<open>struct xt_entry_target\<close> headers.\<close>

record XTEntryMatch =
  em_MatchSize :: "16 word"
  em_Name :: "byte list"
  em_Revision :: byte

record XTEntryTarget =
  et_TargetSize :: "16 word"
  et_Name :: "byte list"
  et_Revision :: byte

record XTStandardTarget =
  st_Target :: XTEntryTarget
  st_Verdict :: "32 word"

record XTErrorTarget =
  er_Target :: XTEntryTarget
  er_Name :: "byte list"

text \<open>\<^verbatim>\<open>struct ipt_replace\<close> without its trailing entries.\<close>

record IPTReplace =
  rp_Name :: "byte list"
  rp_ValidHooks :: "32 word"
  rp_NumEntries :: "32 word"
  rp_Size :: "32 word"
  rp_HookEntry :: "32 word list"
  rp_Underflow :: "32 word list"
  rp_NumCounters :: "32 word"
  rp_Counters :: "64 word"

text \<open>
  Modelled from the spec: \<^verbatim>\<open>binary.Unmarshal\<close> and \<^verbatim>\<open>binary.Marshal\<close> of
  \<^verbatim>\<open>pkg/binary\<close> are not part of the source file. They read and write the fields in
  declaration order without padding, and reading panics on a buffer shorter than the
  record.
\<close>

definition decode_IPTIP :: "byte list \<Rightarrow> IPTIP" where
  "decode_IPTIP buf = \<lparr>
     ip_Src = bytes_at 0 4 buf,
     ip_Dst = bytes_at 4 4 buf,
     ip_SrcMask = bytes_at 8 4 buf,
     ip_DstMask = bytes_at 12 4 buf,
     ip_InputInterface = bytes_at 16 IFNAMSIZ buf,
     ip_OutputInterface = bytes_at 32 IFNAMSIZ buf,
     ip_InputInterfaceMask = bytes_at 48 IFNAMSIZ buf,
     ip_OutputInterfaceMask = bytes_at 64 IFNAMSIZ buf,
     ip_Protocol = u16_le (bytes_at 80 2 buf),
     ip_Flags = buf ! 82,
     ip_InverseFlags = buf ! 83 \<rparr>"

definition decode_IPTEntry :: "byte list \<Rightarrow> IPTEntry" where
  "decode_IPTEntry buf = \<lparr>
     en_IP = decode_IPTIP (bytes_at 0 84 buf),
     en_NFCache = u32_le (bytes_at 84 4 buf),
     en_TargetOffset = u16_le (bytes_at 88 2 buf),
     en_NextOffset = u16_le (bytes_at 90 2 buf),
     en_Comeback = u32_le (bytes_at 92 4 buf),
     en_Pcnt = u64_le (bytes_at 96 8 buf),
     en_Bcnt = u64_le (bytes_at 104 8 buf) \<rparr>"

definition Unmarshal_IPTEntry :: "byte list \<Rightarrow> IPTEntry result" where
  "Unmarshal_IPTEntry buf =
     (if length buf < SizeOfIPTEntry then Panic else Ok (decode_IPTEntry buf))"

definition decode_XTEntryMatch :: "byte list \<Rightarrow> XTEntryMatch" where
  "decode_XTEntryMatch buf = \<lparr>
     em_MatchSize = u16_le (bytes_at 0 2 buf),
     em_Name = bytes_at 2 XT_EXTENSION_MAXNAMELEN buf,
     em_Revision = buf ! 31 \<rparr>"

definition Unmarshal_XTEntryMatch :: "byte list \<Rightarrow> XTEntryMatch result" where
  "Unmarshal_XTEntryMatch buf =
     (if length buf < SizeOfXTEntryMatch then Panic else Ok (decode_XTEntryMatch buf))"

definition decode_XTEntryTarget :: "byte list \<Rightarrow> XTEntryTarget" where
  "decode_XTEntryTarget buf = \<lparr>
     et_TargetSize = u16_le (bytes_at 0 2 buf),
     et_Name = bytes_at 2 XT_EXTENSION_MAXNAMELEN buf,
     et_Revision = buf ! 31 \<rparr>"

definition Unmarshal_XTEntryTarget :: "byte list \<Rightarrow> XTEntryTarget result" where
  "Unmarshal_XTEntryTarget buf =
     (if length buf < SizeOfXTEntryTarget then Panic else Ok (decode_XTEntryTarget buf))"

definition Unmarshal_XTStandardTarget :: "byte list \<Rightarrow> XTStandardTarget result" where
  "Unmarshal_XTStandardTarget buf =
     (if length buf < SizeOfXTStandardTarget then Panic
      else Ok \<lparr>
        st_Target = decode_XTEntryTarget (bytes_at 0 32 buf),
        st_Verdict = u32_le (bytes_at 32 4 buf) \<rparr>)"

definition Unmarshal_XTErrorTarget :: "byte list \<Rightarrow> XTErrorTarget result" where
  "Unmarshal_XTErrorTarget buf =
     (if length buf < SizeOfXTErrorTarget then Panic
      else Ok \<lparr>
        er_Target = decode_XTEntryTarget (bytes_at 0 32 buf),
        er_Name = bytes_at 32 XT_FUNCTION_MAXNAMELEN buf \<rparr>)"

definition decode_IPTReplace :: "byte list \<Rightarrow> IPTReplace" where
  "decode_IPTReplace buf = \<lparr>
     rp_Name = bytes_at 0 XT_TABLE_MAXNAMELEN buf,
     rp_ValidHooks = u32_le (bytes_at 32 4 buf),
     rp_NumEntries = u32_le (bytes_at 36 4 buf),
     rp_Size = u32_le (bytes_at 40 4 buf),
     rp_HookEntry = map (\<lambda>i. u32_le (bytes_at (44 + 4 * i) 4 buf)) [0..<NF_INET_NUMHOOKS],
     rp_Underflow = map (\<lambda>i. u32_le (bytes_at (64 + 4 * i) 4 buf)) [0..<NF_INET_NUMHOOKS],
     rp_NumCounters = u32_le (bytes_at 84 4 buf),
     rp_Counters = u64_le (bytes_at 88 8 buf) \<rparr>"

definition Unmarshal_IPTReplace :: "byte list \<Rightarrow> IPTReplace result" where
  "Unmarshal_IPTReplace buf =
     (if length buf < SizeOfIPTReplace then Panic else Ok (decode_IPTReplace buf))"

definition Marshal_XTEntryTarget :: "XTEntryTarget \<Rightarrow> byte list" where
  "Marshal_XTEntryTarget t = put_u16 (et_TargetSize t) @ et_Name t @ [et_Revision t]"

definition Marshal_XTStandardTarget :: "XTStandardTarget \<Rightarrow> byte list" where
  "Marshal_XTStandardTarget t =
     Marshal_XTEntryTarget (st_Target t) @ put_u32 (st_Verdict t) @ replicate 4 0"

definition Marshal_XTErrorTarget :: "XTErrorTarget \<Rightarrow> byte list" where
  "Marshal_XTErrorTarget t = Marshal_XTEntryTarget (er_Target t) @ er_Name t @ replicate 2 0"

section \<open>The tables of package iptables\<close>

text \<open>
  Modelled from the spec: the types of \<^verbatim>\<open>pkg/tcpip/iptables\<close> are not part of the
  source file. A Table is an ordered sequence of rules, a mapping from supported hook to
  the index of its entry rule, a mapping from supported hook to the index of its underflow
  rule, and an optional metadata snapshot; a Rule is a header filter (protocol number only),
  a sequence of matchers and one target; a Target is one of unconditional accept,
  unconditional drop and error; the verdicts are accept, drop, queue, return and jump, with
  \<^verbatim>\<open>Invalid\<close> as the value returned beside an error. The kinds of matcher are a type
  parameter.
\<close>

datatype Hook = Prerouting | Input | Forward | Output | Postrouting

datatype Verdict = Invalid | Accept | Drop | Queue | Return | Jump

datatype Target = UnconditionalAcceptTarget | UnconditionalDropTarget | ErrorTarget

record IPHeaderFilter =
  Protocol :: "32 word"

record 'm Rule =
  Filter :: IPHeaderFilter
  Matchers :: "'m list"
  Target :: Target

record metadata =
  md_HookEntry :: "32 word list"
  md_Underflow :: "32 word list"
  md_NumEntries :: "32 word"
  md_Size :: "32 word"

record 'm Table =
  Rules :: "'m Rule list"
  BuiltinChains :: "Hook \<rightharpoonup> int"
  Underflows :: "Hook \<rightharpoonup> int"
  Metadata :: "metadata option"

definition HookUnset :: int where
  "HookUnset = - 1"

definition TablenameFilter :: "byte list" where
  "TablenameFilter = str ''filter''"

definition all_hooks :: "Hook list" where
  "all_hooks = [Prerouting, Input, Forward, Output, Postrouting]"

text \<open>The value of a hook as the unsigned integer Go uses to index arrays and shift.\<close>

fun hook_index :: "Hook \<Rightarrow> nat" where
  "hook_index Prerouting = 0"
| "hook_index Input = 1"
| "hook_index Forward = 2"
| "hook_index Output = 3"
| "hook_index Postrouting = 4"

definition EmptyFilterTable :: "unit \<Rightarrow> 'm Table" where
  "EmptyFilterTable u = \<lparr>
     Rules = [],
     BuiltinChains = [Input \<mapsto> HookUnset, Forward \<mapsto> HookUnset, Output \<mapsto> HookUnset],
     Underflows = [Input \<mapsto> HookUnset, Forward \<mapsto> HookUnset, Output \<mapsto> HookUnset],
     Metadata = None \<rparr>"

text \<open>\<^verbatim>\<open>Table.ValidHooks\<close>: one bit for every key of \<^verbatim>\<open>BuiltinChains\<close>.\<close>

definition ValidHooks :: "'m Table \<Rightarrow> 32 word" where
  "ValidHooks table =
     fold (\<lambda>hook hooks. hooks OR push_bit (hook_index hook) 1)
       (filter (\<lambda>hook. BuiltinChains table hook \<noteq> None) all_hooks) 0"

text \<open>Reading a Go map: the zero value for a key that is absent.\<close>

definition map_get :: "('k \<rightharpoonup> int) \<Rightarrow> 'k \<Rightarrow> int" where
  "map_get m k = (case m k of None \<Rightarrow> 0 | Some v \<Rightarrow> v)"

text \<open>The stack's store of tables, by name.\<close>

record 'm IPTables =
  Tables :: "byte list \<rightharpoonup> 'm Table"

record 'm Stack =
  tables :: "'m IPTables"

section \<open>The verdict codec\<close>

type_synonym 'm unmarshalMatcher = "XTEntryMatch \<Rightarrow> IPHeaderFilter \<Rightarrow> byte list \<Rightarrow> 'm result"
type_synonym 'm marshalMatcher = "'m \<Rightarrow> byte list result"

text \<open>
  \<^verbatim>\<open>translateFromStandardVerdict\<close>: the result is an \<^verbatim>\<open>int32\<close>; \<^verbatim>\<open>Jump\<close> and any
  verdict outside the switch panic.
\<close>

fun translateFromStandardVerdict :: "Verdict \<Rightarrow> 32 word result" where
  "translateFromStandardVerdict Accept = Ok (word_of_int (- NF_ACCEPT - 1))"
| "translateFromStandardVerdict Drop = Ok (word_of_int (- NF_DROP - 1))"
| "translateFromStandardVerdict Queue = Ok (word_of_int (- NF_QUEUE - 1))"
| "translateFromStandardVerdict Return = Ok (word_of_int NF_RETURN)"
| "translateFromStandardVerdict Jump = Panic"
| "translateFromStandardVerdict Invalid = Panic"

text \<open>\<^verbatim>\<open>translateToStandardVerdict\<close> returns a verdict and an error, as a pair.\<close>

definition translateToStandardVerdict :: "32 word \<Rightarrow> Verdict \<times> error option" where
  "translateToStandardVerdict val =
     (if sint val = - NF_ACCEPT - 1 then (Accept, None)
      else if sint val = - NF_DROP - 1 then (Drop, None)
      else if sint val = - NF_QUEUE - 1 then (Invalid, Some ErrUnsupportedVerdictQueue)
      else if sint val = NF_RETURN then (Invalid, Some ErrUnsupportedVerdictReturn)
      else (Invalid, Some (ErrUnknownIptablesVerdict val)))"

section \<open>Marshalling targets\<close>

definition errorTargetName :: "byte list" where
  "errorTargetName = str ''ERROR''"

definition marshalStandardTarget :: "Verdict \<Rightarrow> byte list result" where
  "marshalStandardTarget verdict =
     rbind (translateFromStandardVerdict verdict) (\<lambda>v.
       Ok (Marshal_XTStandardTarget \<lparr>
         st_Target = \<lparr> et_TargetSize = of_nat SizeOfXTStandardTarget,
                       et_Name = replicate XT_EXTENSION_MAXNAMELEN 0,
                       et_Revision = 0 \<rparr>,
         st_Verdict = v \<rparr>))"

definition marshalErrorTarget :: "byte list" where
  "marshalErrorTarget =
     Marshal_XTErrorTarget \<lparr>
       er_Target = \<lparr> et_TargetSize = of_nat SizeOfXTErrorTarget,
                     et_Name = copy_into XT_EXTENSION_MAXNAMELEN errorTargetName,
                     et_Revision = 0 \<rparr>,
       er_Name = copy_into XT_FUNCTION_MAXNAMELEN errorTargetName \<rparr>"

text \<open>
  \<^verbatim>\<open>marshalTarget\<close>. The \<^verbatim>\<open>default\<close> branch of the type switch (a panic) has no
  value of the closed type \<^typ>\<open>Target\<close> to reach it.
\<close>

fun marshalTarget :: "Target \<Rightarrow> byte list result" where
  "marshalTarget UnconditionalAcceptTarget = marshalStandardTarget Accept"
| "marshalTarget UnconditionalDropTarget = marshalStandardTarget Drop"
| "marshalTarget ErrorTarget = Ok marshalErrorTarget"

section \<open>Encoding a table: convertNetstackToBinary\<close>

text \<open>
  The two loops over \<^verbatim>\<open>table.BuiltinChains\<close> and \<^verbatim>\<open>table.Underflows\<close>: every hook
  whose rule index is the current one gets the current offset. The writes go to different
  array cells, so the order in which Go walks the map does not show in the result.
\<close>

definition mark_hooks :: "(Hook \<rightharpoonup> int) \<Rightarrow> nat \<Rightarrow> 32 word \<Rightarrow> 32 word list \<Rightarrow> 32 word list" where
  "mark_hooks hookmap ruleIdx off arr =
     fold (\<lambda>hook arr. case hookmap hook of
                         None \<Rightarrow> arr
                       | Some hookRuleIdx \<Rightarrow>
                           if hookRuleIdx = int ruleIdx then arr[hook_index hook := off] else arr)
       all_hooks arr"

text \<open>The loop over the matchers of one rule.\<close>

fun marshal_matchers :: "'m marshalMatcher \<Rightarrow> 'm list \<Rightarrow> KernelIPTEntry \<Rightarrow> KernelIPTEntry result" where
  "marshal_matchers mm [] entry = Ok entry"
| "marshal_matchers mm (matcher # rest) entry =
     (case mm matcher of
        Panic \<Rightarrow> Panic
      | Err e \<Rightarrow> Err e
      | Ok serialized \<Rightarrow>
          if length serialized mod 8 \<noteq> 0 then Panic
          else marshal_matchers mm rest
                 (entry\<lparr> ke_Elems := ke_Elems entry @ serialized,
                         ke_IPTEntry := (ke_IPTEntry entry)\<lparr>
                           en_NextOffset := en_NextOffset (ke_IPTEntry entry) + of_nat (length serialized),
                           en_TargetOffset := en_TargetOffset (ke_IPTEntry entry) + of_nat (length serialized) \<rparr> \<rparr>))"

definition zero_IPTIP :: IPTIP where
  "zero_IPTIP = \<lparr>
     ip_Src = replicate 4 0, ip_Dst = replicate 4 0,
     ip_SrcMask = replicate 4 0, ip_DstMask = replicate 4 0,
     ip_InputInterface = replicate IFNAMSIZ 0, ip_OutputInterface = replicate IFNAMSIZ 0,
     ip_InputInterfaceMask = replicate IFNAMSIZ 0, ip_OutputInterfaceMask = replicate IFNAMSIZ 0,
     ip_Protocol = 0, ip_Flags = 0, ip_InverseFlags = 0 \<rparr>"

text \<open>The entry of one rule: the body of the loop over the rules, after the hooks.\<close>

definition convert_rule :: "'m marshalMatcher \<Rightarrow> 'm Rule \<Rightarrow> KernelIPTEntry result" where
  "convert_rule mm rule =
     (let entry = \<lparr> ke_IPTEntry = \<lparr>
                      en_IP = zero_IPTIP\<lparr> ip_Protocol := ucast (Protocol (Filter rule)) \<rparr>,
                      en_NFCache = 0,
                      en_TargetOffset = of_nat SizeOfIPTEntry,
                      en_NextOffset = of_nat SizeOfIPTEntry,
                      en_Comeback = 0, en_Pcnt = 0, en_Bcnt = 0 \<rparr>,
                    ke_Elems = [] \<rparr>
      in rbind (marshal_matchers mm (Matchers rule) entry) (\<lambda>entry.
         rbind (marshalTarget (Target rule)) (\<lambda>serialized.
           if length serialized mod 8 \<noteq> 0 then Panic
           else Ok (entry\<lparr> ke_Elems := ke_Elems entry @ serialized,
                          ke_IPTEntry := (ke_IPTEntry entry)\<lparr>
                            en_NextOffset := en_NextOffset (ke_IPTEntry entry)
                              + of_nat (length serialized) \<rparr> \<rparr>))))"

text \<open>The loop over the rules, with the index of the current rule.\<close>

fun convert_rules :: "'m marshalMatcher \<Rightarrow> 'm Table \<Rightarrow> nat \<Rightarrow> 'm Rule list \<Rightarrow>
    KernelIPTGetEntries \<Rightarrow> metadata \<Rightarrow> (KernelIPTGetEntries \<times> metadata) result" where
  "convert_rules mm table ruleIdx [] entries meta = Ok (entries, meta)"
| "convert_rules mm table ruleIdx (rule # rest) entries meta =
     (let meta = meta\<lparr> md_HookEntry :=
                   mark_hooks (BuiltinChains table) ruleIdx (ge_Size entries) (md_HookEntry meta) \<rparr>;
          meta = meta\<lparr> md_Underflow :=
                   mark_hooks (Underflows table) ruleIdx (ge_Size entries) (md_Underflow meta) \<rparr>
      in (case convert_rule mm rule of
            Panic \<Rightarrow> Panic
          | Err e \<Rightarrow> Err e
          | Ok entry \<Rightarrow>
              convert_rules mm table (Suc ruleIdx) rest
                (entries\<lparr> ge_Size := ge_Size entries + ucast (en_NextOffset (ke_IPTEntry entry)),
                          ge_Entrytable := ge_Entrytable entries @ [entry] \<rparr>)
                (meta\<lparr> md_NumEntries := md_NumEntries meta + 1 \<rparr>)))"

definition zero_metadata :: metadata where
  "zero_metadata = \<lparr> md_HookEntry = replicate NF_INET_NUMHOOKS 0,
                     md_Underflow = replicate NF_INET_NUMHOOKS 0,
                     md_NumEntries = 0, md_Size = 0 \<rparr>"

definition convertNetstackToBinary :: "'m marshalMatcher \<Rightarrow> byte list \<Rightarrow> 'm Table \<Rightarrow>
    (KernelIPTGetEntries \<times> metadata) result" where
  "convertNetstackToBinary mm tablename table =
     (if XT_TABLE_MAXNAMELEN < length tablename then Err ErrTableNameTooLong
      else
        let entries = \<lparr> ge_Name = copy_into XT_TABLE_MAXNAMELEN tablename,
                        ge_Size = 0, ge_Entrytable = [] \<rparr>
        in rbind (convert_rules mm table 0 (Rules table) entries zero_metadata)
             (\<lambda>(entries, meta). Ok (entries, meta\<lparr> md_Size := ge_Size entries \<rparr>)))"

section \<open>Decoding: parseTarget, parseMatchers, filterFromIPTIP\<close>

definition parseTarget :: "byte list \<Rightarrow> Target result" where
  "parseTarget optVal =
     (if length optVal < SizeOfXTEntryTarget then Err ErrInsufficientSizeEntryTarget
      else
        rbind (slice_to optVal SizeOfXTEntryTarget) (\<lambda>buf.
        rbind (Unmarshal_XTEntryTarget buf) (\<lambda>target.
          if goString (et_Name target) = [] then
            (if length optVal \<noteq> SizeOfXTStandardTarget then Err ErrWrongSizeStandardTarget
             else
               rbind (slice_to optVal SizeOfXTStandardTarget) (\<lambda>buf.
               rbind (Unmarshal_XTStandardTarget buf) (\<lambda>standardTarget.
                 case translateToStandardVerdict (st_Verdict standardTarget) of
                   (verdict, Some err) \<Rightarrow> Err err
                 | (verdict, None) \<Rightarrow>
                     (case verdict of
                        Accept \<Rightarrow> Ok UnconditionalAcceptTarget
                      | Drop \<Rightarrow> Ok UnconditionalDropTarget
                      | _ \<Rightarrow> Err ErrUnknownVerdict))))
          else if goString (et_Name target) = errorTargetName then
            (if length optVal \<noteq> SizeOfXTErrorTarget then Err ErrWrongSizeErrorTarget
             else
               rbind (slice_to optVal SizeOfXTErrorTarget) (\<lambda>buf.
               rbind (Unmarshal_XTErrorTarget buf) (\<lambda>errorTarget.
                 if goString (er_Name errorTarget) = errorTargetName then Ok ErrorTarget
                 else Err ErrUnknownErrorTarget)))
          else Err ErrUnknownTarget)))"

text \<open>
  \<^verbatim>\<open>parseMatchers\<close>. The function \<^verbatim>\<open>unmarshalMatcher\<close> of the package is in a file
  that is not part of the source; it is the parameter \<open>um\<close>. An error of \<open>um\<close> is
  wrapped into an error, a panic of \<open>um\<close> is a panic.
\<close>

function parseMatchers_loop :: "'m unmarshalMatcher \<Rightarrow> IPHeaderFilter \<Rightarrow> byte list \<Rightarrow> 'm list \<Rightarrow>
    'm list result" where
  "parseMatchers_loop um flt optVal matchers =
     (if length optVal > 0 then
        (if length optVal < SizeOfXTEntryMatch then Err ErrInsufficientSizeEntryMatch
         else
           case rbind (slice_to optVal SizeOfXTEntryMatch) Unmarshal_XTEntryMatch of
             Panic \<Rightarrow> Panic
           | Err e \<Rightarrow> Err e
           | Ok match \<Rightarrow>
               (if unat (em_MatchSize match) < SizeOfXTEntryMatch then Err ErrMatchSizeTooSmall
                else if length optVal < unat (em_MatchSize match) then Err ErrInsufficientSizeMatch
                else
                  (case rbind (slice optVal SizeOfXTEntryMatch (unat (em_MatchSize match)))
                          (um match flt) of
                     Panic \<Rightarrow> Panic
                   | Err e \<Rightarrow> Err ErrFailedToCreateMatcher
                   | Ok matcher \<Rightarrow>
                       (case slice_from optVal (unat (em_MatchSize match)) of
                          Panic \<Rightarrow> Panic
                        | Err e \<Rightarrow> Err e
                        | Ok rest \<Rightarrow> parseMatchers_loop um flt rest (matchers @ [matcher])))))
      else if length optVal \<noteq> 0 then Err ErrNotExhausted
      else Ok matchers)"
  by pat_completeness auto
termination
  by (relation "measure (\<lambda>(um, flt, optVal, matchers). length optVal)")
     (auto simp: slice_from_def SizeOfXTEntryMatch_def split: if_splits)

declare parseMatchers_loop.simps [simp del]

definition parseMatchers :: "'m unmarshalMatcher \<Rightarrow> IPHeaderFilter \<Rightarrow> byte list \<Rightarrow> 'm list result" where
  "parseMatchers um flt optVal = parseMatchers_loop um flt optVal []"

definition containsUnsupportedFields :: "IPTIP \<Rightarrow> bool" where
  "containsUnsupportedFields iptip =
     (let emptyInetAddr = replicate 4 0; emptyInterface = replicate IFNAMSIZ 0
      in ip_Dst iptip \<noteq> emptyInetAddr \<or>
         ip_Src iptip \<noteq> emptyInetAddr \<or>
         ip_SrcMask iptip \<noteq> emptyInetAddr \<or>
         ip_DstMask iptip \<noteq> emptyInetAddr \<or>
         ip_InputInterface iptip \<noteq> emptyInterface \<or>
         ip_OutputInterface iptip \<noteq> emptyInterface \<or>
         ip_InputInterfaceMask iptip \<noteq> emptyInterface \<or>
         ip_OutputInterfaceMask iptip \<noteq> emptyInterface \<or>
         ip_Flags iptip \<noteq> 0 \<or>
         ip_InverseFlags iptip \<noteq> 0)"

definition filterFromIPTIP :: "IPTIP \<Rightarrow> IPHeaderFilter result" where
  "filterFromIPTIP iptip =
     (if containsUnsupportedFields iptip then Err ErrUnsupportedIPTIP
      else Ok \<lparr> Protocol = ucast (ip_Protocol iptip) \<rparr>)"

definition hookFromLinux :: "nat \<Rightarrow> Hook result" where
  "hookFromLinux hook =
     (if hook = NF_INET_PRE_ROUTING then Ok Prerouting
      else if hook = NF_INET_LOCAL_IN then Ok Input
      else if hook = NF_INET_FORWARD then Ok Forward
      else if hook = NF_INET_LOCAL_OUT then Ok Output
      else if hook = NF_INET_POST_ROUTING then Ok Postrouting
      else Panic)"

section \<open>Decoding a table: SetEntries\<close>

text \<open>
  One round of the loop over the entries: the entry header, the filter, the matchers and the
  target. The result is the rule, the entry's \<^verbatim>\<open>NextOffset\<close> and the rest of
  \<^verbatim>\<open>optVal\<close>. Every error of a helper becomes \<^verbatim>\<open>syserr.ErrInvalidArgument\<close>. The
  comparison of \<^verbatim>\<open>NextOffset\<close> with the bytes taken only writes to the log.
\<close>

definition parseEntry :: "'m unmarshalMatcher \<Rightarrow> byte list \<Rightarrow> ('m Rule \<times> 16 word \<times> byte list) result" where
  "parseEntry um optVal =
     (if length optVal < SizeOfIPTEntry then Err ErrInvalidArgument
      else
        rbind (slice_to optVal SizeOfIPTEntry) (\<lambda>buf.
        rbind (Unmarshal_IPTEntry buf) (\<lambda>entry.
        rbind (slice_from optVal SizeOfIPTEntry) (\<lambda>optVal.
          if unat (en_TargetOffset entry) < SizeOfIPTEntry then Err ErrInvalidArgument
          else
            (case filterFromIPTIP (en_IP entry) of
               Panic \<Rightarrow> Panic
             | Err e \<Rightarrow> Err ErrInvalidArgument
             | Ok flt \<Rightarrow>
                 (let matchersSize = en_TargetOffset entry - of_nat SizeOfIPTEntry
                  in if length optVal < unat matchersSize then Err ErrInvalidArgument
                     else
                       (case rbind (slice_to optVal (unat matchersSize)) (parseMatchers um flt) of
                          Panic \<Rightarrow> Panic
                        | Err e \<Rightarrow> Err ErrInvalidArgument
                        | Ok matchers \<Rightarrow>
                            rbind (slice_from optVal (unat matchersSize)) (\<lambda>optVal.
                              (let targetSize = en_NextOffset entry - en_TargetOffset entry
                               in if length optVal < unat targetSize then Err ErrInvalidArgument
                                  else
                                    (case rbind (slice_to optVal (unat targetSize)) parseTarget of
                                       Panic \<Rightarrow> Panic
                                     | Err e \<Rightarrow> Err ErrInvalidArgument
                                     | Ok target \<Rightarrow>
                                         rbind (slice_from optVal (unat targetSize)) (\<lambda>optVal.
                                           Ok (\<lparr> Filter = flt, Matchers = matchers, Target = target \<rparr>,
                                               en_NextOffset entry, optVal))))))))))))"

text \<open>
  The loop over the entries; the first argument counts the rounds that remain, from
  \<^verbatim>\<open>replace.NumEntries\<close> down.
\<close>

fun parseEntries :: "'m unmarshalMatcher \<Rightarrow> nat \<Rightarrow> byte list \<Rightarrow> 32 word \<Rightarrow> 32 word list \<Rightarrow>
    'm Table \<Rightarrow> ('m Table \<times> 32 word list) result" where
  "parseEntries um 0 optVal offset offsets table = Ok (table, offsets)"
| "parseEntries um (Suc n) optVal offset offsets table =
     (case parseEntry um optVal of
        Panic \<Rightarrow> Panic
      | Err e \<Rightarrow> Err e
      | Ok (rule, nextOffset, rest) \<Rightarrow>
          parseEntries um n rest (offset + ucast nextOffset) (offsets @ [offset])
            (table\<lparr> Rules := Rules table @ [rule] \<rparr>))"

text \<open>
  The loop over the recorded offsets for one hook: the index of every offset equal to the
  declared entry offset (underflow offset) is written to the hook's cell, so the last one
  stays.
\<close>

fun setHook :: "Hook \<Rightarrow> 32 word \<Rightarrow> 32 word \<Rightarrow> nat \<Rightarrow> 32 word list \<Rightarrow> 'm Table \<Rightarrow> 'm Table" where
  "setHook hk hookEntry underflow ruleIdx [] table = table"
| "setHook hk hookEntry underflow ruleIdx (offset # rest) table =
     (let table = (if offset = hookEntry
                   then table\<lparr> BuiltinChains := (BuiltinChains table)(hk \<mapsto> int ruleIdx) \<rparr>
                   else table);
          table = (if offset = underflow
                   then table\<lparr> Underflows := (Underflows table)(hk \<mapsto> int ruleIdx) \<rparr>
                   else table)
      in setHook hk hookEntry underflow (Suc ruleIdx) rest table)"

text \<open>The loop over the hooks of \<^verbatim>\<open>replace.HookEntry\<close>.\<close>

fun resolveHooks :: "IPTReplace \<Rightarrow> 32 word list \<Rightarrow> nat list \<Rightarrow> 'm Table \<Rightarrow> 'm Table result" where
  "resolveHooks replace offsets [] table = Ok table"
| "resolveHooks replace offsets (hook # hooks) table =
     (if ValidHooks table AND push_bit hook 1 \<noteq> 0 then
        (case hookFromLinux hook of
           Panic \<Rightarrow> Panic
         | Err e \<Rightarrow> Err e
         | Ok hk \<Rightarrow>
             (let table = setHook hk (rp_HookEntry replace ! hook) (rp_Underflow replace ! hook)
                            0 offsets table
              in if map_get (BuiltinChains table) hk = HookUnset then Err ErrInvalidArgument
                 else if map_get (Underflows table) hk = HookUnset then Err ErrInvalidArgument
                 else resolveHooks replace offsets hooks table))
      else resolveHooks replace offsets hooks table)"

text \<open>
  The loop over \<^verbatim>\<open>table.BuiltinChains\<close> that checks the chains other than
  \<^verbatim>\<open>Input\<close>. Indexing \<^verbatim>\<open>table.Rules\<close> out of range panics.
\<close>

fun checkChains :: "Hook list \<Rightarrow> 'm Table \<Rightarrow> unit result" where
  "checkChains [] table = Ok ()"
| "checkChains (hook # hooks) table =
     (case BuiltinChains table hook of
        None \<Rightarrow> checkChains hooks table
      | Some ruleIdx \<Rightarrow>
          if hook \<noteq> Input then
            (if ruleIdx < 0 \<or> int (length (Rules table)) \<le> ruleIdx then Panic
             else if Target (Rules table ! nat ruleIdx) \<noteq> UnconditionalAcceptTarget
               then Err ErrInvalidArgument
             else checkChains hooks table)
          else checkChains hooks table)"

text \<open>
  \<^verbatim>\<open>SetEntries\<close> up to the point where it reads the stack: the replace header and the
  table built from the entries.
\<close>

definition SetEntries_table :: "'m unmarshalMatcher \<Rightarrow> byte list \<Rightarrow> (IPTReplace \<times> 'm Table) result" where
  "SetEntries_table um optVal =
     (if length optVal < SizeOfIPTReplace then Err ErrInvalidArgument
      else
        rbind (slice_to optVal SizeOfIPTReplace) (\<lambda>replaceBuf.
        rbind (slice_from optVal SizeOfIPTReplace) (\<lambda>optVal.
        rbind (Unmarshal_IPTReplace replaceBuf) (\<lambda>replace.
          if goString (rp_Name replace) = TablenameFilter then
            rbind (parseEntries um (unat (rp_NumEntries replace)) optVal 0 [] (EmptyFilterTable ()))
              (\<lambda>(table, offsets).
            rbind (resolveHooks replace offsets [0..<NF_INET_NUMHOOKS] table) (\<lambda>table.
            rbind (checkChains all_hooks table) (\<lambda>_. Ok (replace, table))))
          else Err ErrInvalidArgument))))"

definition metadata_of_replace :: "IPTReplace \<Rightarrow> metadata" where
  "metadata_of_replace replace = \<lparr>
     md_HookEntry = rp_HookEntry replace,
     md_Underflow = rp_Underflow replace,
     md_NumEntries = rp_NumEntries replace,
     md_Size = rp_Size replace \<rparr>"

text \<open>\<^verbatim>\<open>SetEntries\<close>: the result and the stack after the call.\<close>

definition SetEntries :: "'m unmarshalMatcher \<Rightarrow> 'm Stack \<Rightarrow> byte list \<Rightarrow> unit result \<times> 'm Stack" where
  "SetEntries um stack optVal =
     (case SetEntries_table um optVal of
        Panic \<Rightarrow> (Panic, stack)
      | Err e \<Rightarrow> (Err e, stack)
      | Ok (replace, table) \<Rightarrow>
          (let ipt = tables stack;
               table = table\<lparr> Metadata := Some (metadata_of_replace replace) \<rparr>;
               ipt = ipt\<lparr> Tables := (Tables ipt)(goString (rp_Name replace) \<mapsto> table) \<rparr>
           in (Ok (), stack\<lparr> tables := ipt \<rparr>)))"

section \<open>Reading a table back: GetEntries\<close>

definition findTable :: "'m Stack \<Rightarrow> byte list \<Rightarrow> 'm Table result" where
  "findTable stack tablename =
     (case Tables (tables stack) (goString tablename) of
        None \<Rightarrow> Err ErrCouldNotFindTable
      | Some table \<Rightarrow> Ok table)"

text \<open>
  Modelled from the spec: \<^verbatim>\<open>binary.Size\<close> of \<^verbatim>\<open>pkg/binary\<close> is not part of the source
  file; the encoded size is that of the name and size header with every entry and its
  elements.
\<close>

definition binary_Size :: "KernelIPTGetEntries \<Rightarrow> nat" where
  "binary_Size entries =
     XT_TABLE_MAXNAMELEN + 8
       + sum_list (map (\<lambda>e. SizeOfIPTEntry + length (ke_Elems e)) (ge_Entrytable entries))"

text \<open>
  \<^verbatim>\<open>GetEntries\<close> after the table name has been copied in: it panics when the metadata of
  the fresh encoding is not the metadata saved with the table.
\<close>

definition GetEntries :: "'m marshalMatcher \<Rightarrow> 'm Stack \<Rightarrow> byte list \<Rightarrow> nat \<Rightarrow> KernelIPTGetEntries result" where
  "GetEntries mm stack name outLen =
     (case findTable stack name of
        Panic \<Rightarrow> Panic
      | Err e \<Rightarrow> Err ErrInvalidArgument
      | Ok table \<Rightarrow>
          (case convertNetstackToBinary mm (goString name) table of
             Panic \<Rightarrow> Panic
           | Err e \<Rightarrow> Err ErrInvalidArgument
           | Ok (entries, meta) \<Rightarrow>
               (case Metadata table of
                  None \<Rightarrow> Panic
                | Some saved \<Rightarrow>
                    if meta \<noteq> saved then Panic
                    else if binary_Size entries > outLen then Err ErrInvalidArgument
                    else Ok entries)))"

section \<open>Sample inputs\<close>

text \<open>A matcher codec that knows no matcher kind.\<close>

definition no_unmarshal :: "unit unmarshalMatcher" where
  "no_unmarshal match flt buf = Err ErrFailedToCreateMatcher"

definition no_marshal :: "unit marshalMatcher" where
  "no_marshal matcher = Panic"

text \<open>
  A replace header for the filter table with the given entry count, total size, hook entry
  offsets and underflow offsets.
\<close>

definition replace_header :: "32 word \<Rightarrow> 32 word \<Rightarrow> 32 word list \<Rightarrow> 32 word list \<Rightarrow> byte list" where
  "replace_header num sz hookEntry underflow =
     copy_into 32 (str ''filter'') @ put_u32 14 @ put_u32 num @ put_u32 sz
       @ concat (map put_u32 hookEntry) @ concat (map put_u32 underflow) @ replicate 12 0"

text \<open>An entry without matchers whose target is the standard target with the given verdict.\<close>

definition standard_entry :: "32 word \<Rightarrow> byte list" where
  "standard_entry verdict =
     replicate 88 0 @ put_u16 112 @ put_u16 152 @ replicate 20 0
       @ put_u16 40 @ replicate 30 0 @ put_u32 verdict @ replicate 4 0"

text \<open>One accept rule at offset 0, where every hook of the table enters and underflows.\<close>

definition accept_blob :: "byte list" where
  "accept_blob =
     replace_header 1 152 [0, 0, 0, 0, 0] [0, 0, 0, 0, 0] @ standard_entry (- 2)"

text \<open>The same table with a declared total size of 0 instead of 152.\<close>

definition wrong_size_blob :: "byte list" where
  "wrong_size_blob =
     replace_header 1 0 [0, 0, 0, 0, 0] [0, 0, 0, 0, 0] @ standard_entry (- 2)"

text \<open>The same table with the input hook declared at offset 8, where no entry starts.\<close>

definition unset_hook_blob :: "byte list" where
  "unset_hook_blob =
     replace_header 1 152 [0, 8, 0, 0, 0] [0, 0, 0, 0, 0] @ standard_entry (- 2)"

text \<open>An accept rule and a drop rule; the forward hook enters at the drop rule.\<close>

definition drop_forward_blob :: "byte list" where
  "drop_forward_blob =
     replace_header 2 304 [0, 0, 152, 0, 0] [0, 0, 0, 0, 0]
       @ standard_entry (- 2) @ standard_entry (- 1)"

definition empty_stack :: "unit Stack" where
  "empty_stack = \<lparr> tables = \<lparr> Tables = Map.empty \<rparr> \<rparr>"

section \<open>Matcher blocks\<close>

text \<open>
  A region that \<^verbatim>\<open>parseMatchers\<close> can consume is a sequence of whole matcher blocks. A
  block is at least as long as the matcher-extension header, its header declares exactly
  the length of the block, and \<open>um\<close> accepts its payload.
\<close>

definition match_block :: "'m unmarshalMatcher \<Rightarrow> IPHeaderFilter \<Rightarrow> byte list \<Rightarrow> 'm \<Rightarrow> bool" where
  "match_block um flt blk matcher \<longleftrightarrow>
     SizeOfXTEntryMatch \<le> length blk \<and>
     unat (em_MatchSize (decode_XTEntryMatch (take SizeOfXTEntryMatch blk))) = length blk \<and>
     um (decode_XTEntryMatch (take SizeOfXTEntryMatch blk)) flt (drop SizeOfXTEntryMatch blk)
       = Ok matcher"

text \<open>
  The bytes that remain do not start a whole block: they are fewer than a header, or the
  header declares a size smaller than the header or larger than what remains.
\<close>

definition bad_match_header :: "byte list \<Rightarrow> bool" where
  "bad_match_header rest \<longleftrightarrow>
     rest \<noteq> [] \<and>
     (length rest < SizeOfXTEntryMatch \<or>
      unat (em_MatchSize (decode_XTEntryMatch (take SizeOfXTEntryMatch rest))) < SizeOfXTEntryMatch \<or>
      length rest < unat (em_MatchSize (decode_XTEntryMatch (take SizeOfXTEntryMatch rest))))"

text \<open>A matcher codec whose matchers are the raw payload bytes of their blocks.\<close>

definition raw_unmarshal :: "(byte list) unmarshalMatcher" where
  "raw_unmarshal match flt buf = Ok buf"

definition raw_marshal :: "(byte list) marshalMatcher" where
  "raw_marshal matcher =
     Ok (put_u16 (of_nat (SizeOfXTEntryMatch + length matcher))
           @ replicate (XT_EXTENSION_MAXNAMELEN + 1) 0 @ matcher)"

text \<open>A matcher block of the header alone, with an empty name.\<close>

definition bare_block :: "byte list" where
  "bare_block = put_u16 32 @ replicate 30 0"

section \<open>What one entry declares\<close>

text \<open>The header of the entry at the start of a buffer of at least the header's size.\<close>

definition entry_header :: "byte list \<Rightarrow> IPTEntry" where
  "entry_header optVal = decode_IPTEntry (take SizeOfIPTEntry optVal)"

text \<open>The replace header at the start of a buffer of at least the header's size.\<close>

definition replace_of :: "byte list \<Rightarrow> IPTReplace" where
  "replace_of optVal = decode_IPTReplace (take SizeOfIPTReplace optVal)"

text \<open>
  The hooks of a filter table: the keys of the two maps of \<^verbatim>\<open>EmptyFilterTable\<close>, which
  \<^verbatim>\<open>SetEntries\<close> never adds to.
\<close>

definition filter_shape :: "'m Table \<Rightarrow> bool" where
  "filter_shape table \<longleftrightarrow>
     dom (BuiltinChains table) = {Input, Forward, Output} \<and>
     dom (Underflows table) = {Input, Forward, Output}"

text \<open>The hooks of the list that a filter table has still hold \<^verbatim>\<open>HookUnset\<close>.\<close>

definition unset_hooks :: "nat list \<Rightarrow> 'm Table \<Rightarrow> bool" where
  "unset_hooks hooks t \<longleftrightarrow>
     (\<forall>h\<in>set hooks. all_hooks ! h \<in> {Input, Forward, Output} \<longrightarrow>
        BuiltinChains t (all_hooks ! h) = Some HookUnset \<and>
        Underflows t (all_hooks ! h) = Some HookUnset)"

text \<open>What the sample inputs decode to.\<close>

definition accept_rule :: "unit Rule" where
  "accept_rule = \<lparr> Filter = \<lparr> Protocol = 0 \<rparr>, Matchers = [], Target = UnconditionalAcceptTarget \<rparr>"

definition drop_rule :: "unit Rule" where
  "drop_rule = \<lparr> Filter = \<lparr> Protocol = 0 \<rparr>, Matchers = [], Target = UnconditionalDropTarget \<rparr>"

definition one_rule_table :: "unit Table" where
  "one_rule_table =
     \<lparr> Rules = [accept_rule], BuiltinChains = [Input \<mapsto> 0, Forward \<mapsto> 0, Output \<mapsto> 0],
       Underflows = [Input \<mapsto> 0, Forward \<mapsto> 0, Output \<mapsto> 0], Metadata = None \<rparr>"

definition one_rule_replace :: "32 word \<Rightarrow> IPTReplace" where
  "one_rule_replace sz =
     \<lparr> rp_Name = copy_into 32 (str ''filter''), rp_ValidHooks = 14, rp_NumEntries = 1,
       rp_Size = sz, rp_HookEntry = [0, 0, 0, 0, 0], rp_Underflow = [0, 0, 0, 0, 0],
       rp_NumCounters = 0, rp_Counters = 0 \<rparr>"

text \<open>A replace blob with the four bytes of the header's \<^verbatim>\<open>Size\<close> field replaced.\<close>

definition with_size :: "32 word \<Rightarrow> byte list \<Rightarrow> byte list" where
  "with_size sz optVal = take 40 optVal @ put_u32 sz @ drop 44 optVal"

section \<open>The verdict codec and parseTarget\<close>

lemma translateToStandardVerdict_cases:
  "translateToStandardVerdict val =
     (if val = - 2 then (Accept, None)
      else if val = - 1 then (Drop, None)
      else if val = - 4 then (Invalid, Some ErrUnsupportedVerdictQueue)
      else if val = - 5 then (Invalid, Some ErrUnsupportedVerdictReturn)
      else (Invalid, Some (ErrUnknownIptablesVerdict val)))"
proof -
  have e: "\<And>k::int. (sint val = sint (word_of_int k :: 32 word)) = (val = word_of_int k)"
    by (rule word_eq_iff_signed [symmetric])
  have a: "(sint val = - 2) = (val = - 2)" using e[of "- 2"] by simp
  have b: "(sint val = - 1) = (val = - 1)" using e[of "- 1"] by simp
  have c: "(sint val = - 4) = (val = - 4)" using e[of "- 4"] by simp
  have d: "(sint val = - 5) = (val = - 5)" using e[of "- 5"] by simp
  show ?thesis
    by (simp add: translateToStandardVerdict_def abi a b c d)
qed

lemma parseTarget_unfold:
  "parseTarget optVal =
     (if length optVal < 32 then Err ErrInsufficientSizeEntryTarget
      else if goString (bytes_at 2 29 optVal) = [] then
        (if length optVal \<noteq> 40 then Err ErrWrongSizeStandardTarget
         else if u32_le (bytes_at 32 4 optVal) = - 2 then Ok UnconditionalAcceptTarget
         else if u32_le (bytes_at 32 4 optVal) = - 1 then Ok UnconditionalDropTarget
         else if u32_le (bytes_at 32 4 optVal) = - 4 then Err ErrUnsupportedVerdictQueue
         else if u32_le (bytes_at 32 4 optVal) = - 5 then Err ErrUnsupportedVerdictReturn
         else Err (ErrUnknownIptablesVerdict (u32_le (bytes_at 32 4 optVal))))
      else if goString (bytes_at 2 29 optVal) = errorTargetName then
        (if length optVal \<noteq> 64 then Err ErrWrongSizeErrorTarget
         else if goString (bytes_at 32 30 optVal) = errorTargetName then Ok ErrorTarget
         else Err ErrUnknownErrorTarget)
      else Err ErrUnknownTarget)"
  by (simp add: parseTarget_def abi slice_to_def Unmarshal_XTEntryTarget_def
      Unmarshal_XTStandardTarget_def Unmarshal_XTErrorTarget_def decode_XTEntryTarget_def
      bytes_at_def translateToStandardVerdict_cases drop_take min_def)

lemma parseTarget_no_panic: "parseTarget optVal \<noteq> Panic"
  by (simp add: parseTarget_unfold)

lemma parseTarget_standard_accept:
  "parseTarget (put_u16 40 @ replicate 30 0 @ put_u32 (- 2) @ replicate 4 0)
     = Ok UnconditionalAcceptTarget"
  by (simp add: parseTarget_unfold put_u16_def put_u32_def bytes_at_def goString_def u32_le_def)

text \<open>
  C2. Verdict codec inverse: decoding the encoding of \<^verbatim>\<open>Accept\<close> and of \<^verbatim>\<open>Drop\<close>
  gives the verdict back with no error; the wire values of \<^verbatim>\<open>Queue\<close>
  (\<^verbatim>\<open>-NF_QUEUE-1\<close>) and \<^verbatim>\<open>Return\<close> (\<^verbatim>\<open>NF_RETURN\<close>) decode to an unsupported-verdict
  error, every other 32-bit value decodes to an unknown-verdict error, and none of this is a
  panic. So the decoder never yields \<^verbatim>\<open>Queue\<close>, \<^verbatim>\<open>Return\<close> or \<^verbatim>\<open>Jump\<close>, and a
  target that \<^verbatim>\<open>parseTarget\<close> returns is the error target or the unconditional accept
  (drop) target of a verdict field that decodes to \<^verbatim>\<open>Accept\<close> (\<^verbatim>\<open>Drop\<close>).
\<close>

theorem verdict_codec:
  "rbind (translateFromStandardVerdict Accept) (\<lambda>w. Ok (translateToStandardVerdict w))
     = Ok (Accept, None)
   \<and> rbind (translateFromStandardVerdict Drop) (\<lambda>w. Ok (translateToStandardVerdict w))
     = Ok (Drop, None)
   \<and> translateFromStandardVerdict Queue = Ok (word_of_int (- NF_QUEUE - 1))
   \<and> translateToStandardVerdict (word_of_int (- NF_QUEUE - 1))
     = (Invalid, Some ErrUnsupportedVerdictQueue)
   \<and> translateFromStandardVerdict Return = Ok (word_of_int NF_RETURN)
   \<and> translateToStandardVerdict (word_of_int NF_RETURN)
     = (Invalid, Some ErrUnsupportedVerdictReturn)
   \<and> (\<forall>val. sint val \<notin> {- NF_ACCEPT - 1, - NF_DROP - 1, - NF_QUEUE - 1, NF_RETURN} \<longrightarrow>
          translateToStandardVerdict val = (Invalid, Some (ErrUnknownIptablesVerdict val)))
   \<and> (\<forall>val. fst (translateToStandardVerdict val) \<notin> {Queue, Return, Jump})
   \<and> (\<forall>optVal. parseTarget optVal \<noteq> Panic)
   \<and> (\<forall>optVal target. parseTarget optVal = Ok target \<and> target \<noteq> ErrorTarget \<longrightarrow>
          (target = UnconditionalAcceptTarget \<and>
             translateToStandardVerdict (u32_le (bytes_at 32 4 optVal)) = (Accept, None)) \<or>
          (target = UnconditionalDropTarget \<and>
             translateToStandardVerdict (u32_le (bytes_at 32 4 optVal)) = (Drop, None)))"
proof -
  have 1: "\<forall>val. sint val \<notin> {- NF_ACCEPT - 1, - NF_DROP - 1, - NF_QUEUE - 1, NF_RETURN} \<longrightarrow>
          translateToStandardVerdict val = (Invalid, Some (ErrUnknownIptablesVerdict val))"
    by (simp add: translateToStandardVerdict_def)
  have 2: "\<forall>val. fst (translateToStandardVerdict val) \<notin> {Queue, Return, Jump}"
    by (simp add: translateToStandardVerdict_cases)
  have 3: "\<forall>optVal. parseTarget optVal \<noteq> Panic"
    by (simp add: parseTarget_no_panic)
  have 4: "\<forall>optVal target. parseTarget optVal = Ok target \<and> target \<noteq> ErrorTarget \<longrightarrow>
          (target = UnconditionalAcceptTarget \<and>
             translateToStandardVerdict (u32_le (bytes_at 32 4 optVal)) = (Accept, None)) \<or>
          (target = UnconditionalDropTarget \<and>
             translateToStandardVerdict (u32_le (bytes_at 32 4 optVal)) = (Drop, None))"
    by (auto simp: parseTarget_unfold translateToStandardVerdict_cases split: if_splits)
  have 5: "rbind (translateFromStandardVerdict Accept) (\<lambda>w. Ok (translateToStandardVerdict w))
             = Ok (Accept, None)"
    by (simp add: translateToStandardVerdict_cases abi)
  have 6: "rbind (translateFromStandardVerdict Drop) (\<lambda>w. Ok (translateToStandardVerdict w))
             = Ok (Drop, None)"
    by (simp add: translateToStandardVerdict_cases abi)
  have 7: "translateToStandardVerdict (word_of_int (- NF_QUEUE - 1))
             = (Invalid, Some ErrUnsupportedVerdictQueue)"
    by (simp add: translateToStandardVerdict_cases abi)
  have 8: "translateToStandardVerdict (word_of_int NF_RETURN)
             = (Invalid, Some ErrUnsupportedVerdictReturn)"
    by (simp add: translateToStandardVerdict_cases abi)
  from 1 2 3 4 5 6 7 8 show ?thesis by simp
qed

theorem verdict_codec_witness:
  "sint (7 :: 32 word) \<notin> {- NF_ACCEPT - 1, - NF_DROP - 1, - NF_QUEUE - 1, NF_RETURN}
   \<and> translateToStandardVerdict 7 = (Invalid, Some (ErrUnknownIptablesVerdict 7))
   \<and> parseTarget (put_u16 40 @ replicate 30 0 @ put_u32 (- 2) @ replicate 4 0)
       = Ok UnconditionalAcceptTarget
   \<and> translateToStandardVerdict
       (u32_le (bytes_at 32 4 (put_u16 40 @ replicate 30 0 @ put_u32 (- 2) @ replicate 4 0)))
       = (Accept, None)"
proof -
  have h: "sint (7 :: 32 word) \<notin> {- NF_ACCEPT - 1, - NF_DROP - 1, - NF_QUEUE - 1, NF_RETURN}"
    by (simp add: abi)
  note p = parseTarget_standard_accept
  from verdict_codec have
    a: "\<forall>val. sint val \<notin> {- NF_ACCEPT - 1, - NF_DROP - 1, - NF_QUEUE - 1, NF_RETURN} \<longrightarrow>
          translateToStandardVerdict val = (Invalid, Some (ErrUnknownIptablesVerdict val))"
    and b: "\<forall>optVal target. parseTarget optVal = Ok target \<and> target \<noteq> ErrorTarget \<longrightarrow>
          (target = UnconditionalAcceptTarget \<and>
             translateToStandardVerdict (u32_le (bytes_at 32 4 optVal)) = (Accept, None)) \<or>
          (target = UnconditionalDropTarget \<and>
             translateToStandardVerdict (u32_le (bytes_at 32 4 optVal)) = (Drop, None))"
    by blast+
  from a h have "translateToStandardVerdict 7 = (Invalid, Some (ErrUnknownIptablesVerdict 7))"
    by blast
  moreover from b p have "translateToStandardVerdict
       (u32_le (bytes_at 32 4 (put_u16 40 @ replicate 30 0 @ put_u32 (- 2) @ replicate 4 0)))
       = (Accept, None)"
    by fastforce
  ultimately show ?thesis using h p by simp
qed

text \<open>
  C5. The acceptance condition of \<^verbatim>\<open>parseTarget\<close>: it returns a target in exactly two
  cases. Either the name of the target header is empty, the input has exactly the size of
  a standard target and its verdict field is the wire value of \<^verbatim>\<open>Accept\<close> (the result is
  the unconditional accept target) or of \<^verbatim>\<open>Drop\<close> (the unconditional drop target); or
  the name of the header is \<^verbatim>\<open>ERROR\<close>, the input has exactly the size of an error target
  and its inner name is \<^verbatim>\<open>ERROR\<close> too (the result is the error target). Every other
  input is rejected with an error, without a panic.
\<close>

theorem parseTarget_accepts:
  "(parseTarget optVal = Ok target \<longleftrightarrow>
      (length optVal = SizeOfXTStandardTarget
         \<and> goString (et_Name (decode_XTEntryTarget optVal)) = []
         \<and> (sint (u32_le (bytes_at 32 4 optVal)) = - NF_ACCEPT - 1
                \<and> target = UnconditionalAcceptTarget
            \<or> sint (u32_le (bytes_at 32 4 optVal)) = - NF_DROP - 1
                \<and> target = UnconditionalDropTarget))
      \<or> (length optVal = SizeOfXTErrorTarget
         \<and> goString (et_Name (decode_XTEntryTarget optVal)) = errorTargetName
         \<and> goString (bytes_at 32 XT_FUNCTION_MAXNAMELEN optVal) = errorTargetName
         \<and> target = ErrorTarget))
   \<and> ((\<exists>t. parseTarget optVal = Ok t) \<or> (\<exists>e. parseTarget optVal = Err e))"
proof -
  have e: "\<And>k::int. (sint (u32_le (bytes_at 32 4 optVal)) = sint (word_of_int k :: 32 word))
             = (u32_le (bytes_at 32 4 optVal) = word_of_int k)"
    by (rule word_eq_iff_signed [symmetric])
  have a: "(sint (u32_le (bytes_at 32 4 optVal)) = - 2) = (u32_le (bytes_at 32 4 optVal) = - 2)"
    using e[of "- 2"] by simp
  have b: "(sint (u32_le (bytes_at 32 4 optVal)) = - 1) = (u32_le (bytes_at 32 4 optVal) = - 1)"
    using e[of "- 1"] by simp
  have n: "errorTargetName \<noteq> []"
    by (simp add: errorTargetName_def str_def)
  have 1: "parseTarget optVal = Ok target \<longleftrightarrow>
      (length optVal = SizeOfXTStandardTarget
         \<and> goString (et_Name (decode_XTEntryTarget optVal)) = []
         \<and> (sint (u32_le (bytes_at 32 4 optVal)) = - NF_ACCEPT - 1
                \<and> target = UnconditionalAcceptTarget
            \<or> sint (u32_le (bytes_at 32 4 optVal)) = - NF_DROP - 1
                \<and> target = UnconditionalDropTarget))
      \<or> (length optVal = SizeOfXTErrorTarget
         \<and> goString (et_Name (decode_XTEntryTarget optVal)) = errorTargetName
         \<and> goString (bytes_at 32 XT_FUNCTION_MAXNAMELEN optVal) = errorTargetName
         \<and> target = ErrorTarget)"
    using n by (auto simp: parseTarget_unfold abi a b decode_XTEntryTarget_def split: if_splits)
  have 2: "(\<exists>t. parseTarget optVal = Ok t) \<or> (\<exists>e. parseTarget optVal = Err e)"
    using parseTarget_no_panic [of optVal] by (cases "parseTarget optVal") auto
  from 1 2 show ?thesis by blast
qed

theorem parseTarget_accepts_witness:
  "parseTarget marshalErrorTarget = Ok ErrorTarget
   \<and> (\<forall>target. parseTarget (replicate 40 1) \<noteq> Ok target)"
proof -
  have l: "length marshalErrorTarget = SizeOfXTErrorTarget"
    by (simp add: marshalErrorTarget_def Marshal_XTErrorTarget_def Marshal_XTEntryTarget_def
        put_u16_def copy_into_def errorTargetName_def str_def abi)
  have n1: "goString (et_Name (decode_XTEntryTarget marshalErrorTarget)) = errorTargetName"
    by (simp add: marshalErrorTarget_def Marshal_XTErrorTarget_def Marshal_XTEntryTarget_def
        put_u16_def copy_into_def errorTargetName_def str_def abi decode_XTEntryTarget_def
        bytes_at_def goString_def)
  have n2: "goString (bytes_at 32 XT_FUNCTION_MAXNAMELEN marshalErrorTarget) = errorTargetName"
    by (simp add: marshalErrorTarget_def Marshal_XTErrorTarget_def Marshal_XTEntryTarget_def
        put_u16_def copy_into_def errorTargetName_def str_def abi bytes_at_def goString_def)
  have a: "parseTarget marshalErrorTarget = Ok ErrorTarget"
    using parseTarget_accepts [of marshalErrorTarget ErrorTarget] l n1 n2 by blast
  have g: "goString (et_Name (decode_XTEntryTarget (replicate 40 1))) \<noteq> []"
    by (simp add: decode_XTEntryTarget_def bytes_at_def goString_def abi)
  have b: "\<forall>target. parseTarget (replicate 40 1) \<noteq> Ok target"
  proof
    fix target
    show "parseTarget (replicate 40 1) \<noteq> Ok target"
      using parseTarget_accepts [of "replicate 40 1" target] g by (simp add: abi)
  qed
  from a b show ?thesis by blast
qed

section \<open>parseMatchers\<close>

lemma Unmarshal_XTEntryMatch_Ok:
  "SizeOfXTEntryMatch \<le> length buf \<Longrightarrow>
   Unmarshal_XTEntryMatch (take SizeOfXTEntryMatch buf)
     = Ok (decode_XTEntryMatch (take SizeOfXTEntryMatch buf))"
  by (simp add: Unmarshal_XTEntryMatch_def)

lemma parseMatchers_loop_block:
  assumes "match_block um flt blk matcher"
  shows "parseMatchers_loop um flt (blk @ rest) acc
           = parseMatchers_loop um flt rest (acc @ [matcher])"
proof -
  from assms have len: "SizeOfXTEntryMatch \<le> length blk"
    by (simp add: match_block_def)
  define match where "match = decode_XTEntryMatch (take SizeOfXTEntryMatch blk)"
  from len have m: "Unmarshal_XTEntryMatch (take SizeOfXTEntryMatch blk) = Ok match"
    using Unmarshal_XTEntryMatch_Ok match_def by simp
  from assms have sz: "unat (em_MatchSize match) = length blk"
    and u: "um match flt (drop SizeOfXTEntryMatch blk) = Ok matcher"
    by (simp_all add: match_block_def match_def)
  from len have pos: "0 < length blk" by (auto simp: SizeOfXTEntryMatch_def)
  show ?thesis
    using len m sz u pos
    by (subst parseMatchers_loop.simps) (simp add: slice_to_def slice_def slice_from_def)
qed

lemma parseMatchers_loop_blocks:
  "list_all2 (match_block um flt) blocks ms \<Longrightarrow>
   parseMatchers_loop um flt (concat blocks @ rest) acc
     = parseMatchers_loop um flt rest (acc @ ms)"
proof (induction blocks ms arbitrary: acc rule: list_all2_induct)
  case Nil
  then show ?case by simp
next
  case (Cons blk matcher blocks ms)
  then show ?case by (simp add: parseMatchers_loop_block)
qed

lemma parseMatchers_loop_Nil: "parseMatchers_loop um flt [] acc = Ok acc"
  by (subst parseMatchers_loop.simps) simp

lemma parseMatchers_loop_bad:
  "bad_match_header rest \<Longrightarrow> \<exists>e. parseMatchers_loop um flt rest acc = Err e"
  by (subst parseMatchers_loop.simps)
     (auto simp: bad_match_header_def slice_to_def Unmarshal_XTEntryMatch_def)

lemma parseMatchers_loop_Ok:
  "parseMatchers_loop um flt optVal acc = Ok res \<Longrightarrow>
   \<exists>blocks ms. concat blocks = optVal \<and> res = acc @ ms
      \<and> list_all2 (match_block um flt) blocks ms"
proof (induction um flt optVal acc rule: parseMatchers_loop.induct)
  case (1 um flt optVal matchers)
  show ?case
  proof (cases "optVal = []")
    case True
    with "1.prems" have "res = matchers"
      by (subst (asm) parseMatchers_loop.simps) simp
    with True show ?thesis by auto
  next
    case False
    from "1.prems" False have len: "SizeOfXTEntryMatch \<le> length optVal"
      by (subst (asm) parseMatchers_loop.simps) (auto split: if_splits)
    define match where "match = decode_XTEntryMatch (take SizeOfXTEntryMatch optVal)"
    from len have m: "Unmarshal_XTEntryMatch (take SizeOfXTEntryMatch optVal) = Ok match"
      using Unmarshal_XTEntryMatch_Ok match_def by simp
    have st: "rbind (slice_to optVal SizeOfXTEntryMatch) Unmarshal_XTEntryMatch = Ok match"
      using len m by (simp add: slice_to_def)
    from "1.prems" False len st have sz: "SizeOfXTEntryMatch \<le> unat (em_MatchSize match)"
      "unat (em_MatchSize match) \<le> length optVal"
      by (subst (asm) parseMatchers_loop.simps, auto split: if_splits)+
    let ?n = "unat (em_MatchSize match)"
    from "1.prems" False len st sz obtain matcher where
      u: "um match flt (take (?n - SizeOfXTEntryMatch) (drop SizeOfXTEntryMatch optVal))
            = Ok matcher"
      and r: "parseMatchers_loop um flt (drop ?n optVal) (matchers @ [matcher]) = Ok res"
      by (subst (asm) parseMatchers_loop.simps)
         (auto simp: slice_def slice_from_def split: if_splits result.splits)
    have sl: "rbind (slice optVal SizeOfXTEntryMatch ?n) (um match flt) = Ok matcher"
      using sz u by (simp add: slice_def)
    have sf: "slice_from optVal ?n = Ok (drop ?n optVal)"
      using sz by (simp add: slice_from_def)
    from "1.IH" [OF _ _ st _ _ sl sf r] False len sz
    obtain blocks ms where b: "concat blocks = drop ?n optVal" "res = (matchers @ [matcher]) @ ms"
      "list_all2 (match_block um flt) blocks ms"
      by auto
    have t1: "take SizeOfXTEntryMatch (take ?n optVal) = take SizeOfXTEntryMatch optVal"
      using sz by (simp add: min_def)
    have t2: "drop SizeOfXTEntryMatch (take ?n optVal)
                = take (?n - SizeOfXTEntryMatch) (drop SizeOfXTEntryMatch optVal)"
      by (simp add: drop_take)
    have t3: "length (take ?n optVal) = ?n"
      using sz by simp
    have blk: "match_block um flt (take ?n optVal) matcher"
      unfolding match_block_def t1 t2 t3 match_def [symmetric]
      using sz u by simp
    have "concat (take ?n optVal # blocks) = optVal" using b by simp
    moreover have "res = matchers @ (matcher # ms)" using b by simp
    moreover have "list_all2 (match_block um flt) (take ?n optVal # blocks) (matcher # ms)"
      using blk b by simp
    ultimately show ?thesis by blast
  qed
qed

lemma bare_block_match: "match_block raw_unmarshal flt bare_block []"
  by (simp add: match_block_def bare_block_def raw_unmarshal_def decode_XTEntryMatch_def
      put_u16_def u16_le_def bytes_at_def abi)

text \<open>
  C6. \<^verbatim>\<open>parseMatchers\<close> consumes its region exactly. When it returns matchers, the
  region is the concatenation of whole matcher blocks, one for each matcher, each at least
  as long as the header and of exactly the size its header declares; a region of whole
  blocks is accepted. When the bytes after some whole blocks do not start a whole block
  (fewer than a header remain, or the header declares a size smaller than the header or
  larger than what remains), the result is an error.
\<close>

theorem parseMatchers_exhausts:
  "(parseMatchers um flt optVal = Ok matchers \<longrightarrow>
      (\<exists>blocks. concat blocks = optVal \<and> list_all2 (match_block um flt) blocks matchers))
   \<and> (list_all2 (match_block um flt) blocks ms \<longrightarrow>
        parseMatchers um flt (concat blocks) = Ok ms)
   \<and> (list_all2 (match_block um flt) blocks ms \<and> bad_match_header rest \<longrightarrow>
        (\<exists>e. parseMatchers um flt (concat blocks @ rest) = Err e))"
proof (intro conjI impI)
  assume "parseMatchers um flt optVal = Ok matchers"
  then show "\<exists>blocks. concat blocks = optVal \<and> list_all2 (match_block um flt) blocks matchers"
    using parseMatchers_loop_Ok [of um flt optVal "[]" matchers]
    by (auto simp: parseMatchers_def)
next
  assume "list_all2 (match_block um flt) blocks ms"
  then show "parseMatchers um flt (concat blocks) = Ok ms"
    using parseMatchers_loop_blocks [of um flt blocks ms "[]" "[]"]
    by (simp add: parseMatchers_def parseMatchers_loop_Nil)
next
  assume "list_all2 (match_block um flt) blocks ms \<and> bad_match_header rest"
  then show "\<exists>e. parseMatchers um flt (concat blocks @ rest) = Err e"
    using parseMatchers_loop_blocks [of um flt blocks ms rest "[]"]
      parseMatchers_loop_bad [of rest um flt ms]
    by (simp add: parseMatchers_def)
qed

theorem parseMatchers_exhausts_witness:
  "parseMatchers raw_unmarshal \<lparr>Protocol = 0\<rparr> (bare_block @ bare_block) = Ok [[], []]
   \<and> (\<exists>e. parseMatchers raw_unmarshal \<lparr>Protocol = 0\<rparr> (bare_block @ bare_block @ [1, 2, 3]) = Err e)
   \<and> (\<exists>blocks. concat blocks = bare_block @ bare_block
         \<and> list_all2 (match_block raw_unmarshal \<lparr>Protocol = 0\<rparr>) blocks [[], []])"
proof -
  let ?f = "\<lparr>Protocol = 0\<rparr>"
  have b: "list_all2 (match_block raw_unmarshal ?f) [bare_block, bare_block] [[], []]"
    by (simp add: bare_block_match)
  have r: "bad_match_header [1, 2, 3]"
    by (simp add: bad_match_header_def abi)
  note t = parseMatchers_exhausts [of raw_unmarshal ?f "bare_block @ bare_block" "[[], []]"
      "[bare_block, bare_block]" "[[], []]" "[1, 2, 3]"]
  from t b have 1: "parseMatchers raw_unmarshal ?f (bare_block @ bare_block) = Ok [[], []]"
    by simp
  from t b r have 2: "\<exists>e. parseMatchers raw_unmarshal ?f (bare_block @ bare_block @ [1, 2, 3]) = Err e"
    by simp
  from t 1 have 3: "\<exists>blocks. concat blocks = bare_block @ bare_block
         \<and> list_all2 (match_block raw_unmarshal ?f) blocks [[], []]"
    by blast
  from 1 2 3 show ?thesis by blast
qed

section \<open>SetEntries: one entry\<close>

lemma parseMatchers_loop_no_panic:
  "(\<forall>match flt buf. um match flt buf \<noteq> Panic) \<Longrightarrow>
   parseMatchers_loop um flt optVal acc \<noteq> Panic"
proof (induction um flt optVal acc rule: parseMatchers_loop.induct)
  case (1 um flt optVal matchers)
  show ?case
  proof (cases "SizeOfXTEntryMatch \<le> length optVal")
    case False
    then show ?thesis
      by (subst parseMatchers_loop.simps) simp
  next
    case len: True
    define match where "match = decode_XTEntryMatch (take SizeOfXTEntryMatch optVal)"
    from len have m: "Unmarshal_XTEntryMatch (take SizeOfXTEntryMatch optVal) = Ok match"
      using Unmarshal_XTEntryMatch_Ok match_def by simp
    have st: "rbind (slice_to optVal SizeOfXTEntryMatch) Unmarshal_XTEntryMatch = Ok match"
      using len m by (simp add: slice_to_def)
    let ?n = "unat (em_MatchSize match)"
    show ?thesis
    proof (cases "SizeOfXTEntryMatch \<le> ?n \<and> ?n \<le> length optVal")
      case False
      then show ?thesis
        using st by (subst parseMatchers_loop.simps) auto
    next
      case sz: True
      have sf: "slice_from optVal ?n = Ok (drop ?n optVal)"
        using sz by (simp add: slice_from_def)
      have pos: "0 < length optVal" using len by (auto simp: SizeOfXTEntryMatch_def)
      show ?thesis
      proof (cases "rbind (slice optVal SizeOfXTEntryMatch ?n) (um match flt)")
        case (Ok matcher)
        from "1.IH" [OF pos _ st _ _ Ok sf] len sz "1.prems"
        have "parseMatchers_loop um flt (drop ?n optVal) (matchers @ [matcher]) \<noteq> Panic"
          by auto
        then show ?thesis
          using st sz Ok sf pos len by (subst parseMatchers_loop.simps) auto
      next
        case (Err e)
        then show ?thesis
          using st sz pos len by (subst parseMatchers_loop.simps) auto
      next
        case Panic
        then have False using sz "1.prems" by (simp add: slice_def)
        then show ?thesis ..
      qed
    qed
  qed
qed

lemma parseMatchers_no_panic:
  "(\<forall>match flt buf. um match flt buf \<noteq> Panic) \<Longrightarrow> parseMatchers um flt optVal \<noteq> Panic"
  by (simp add: parseMatchers_def parseMatchers_loop_no_panic)

lemma filterFromIPTIP_no_panic: "filterFromIPTIP iptip \<noteq> Panic"
  by (simp add: filterFromIPTIP_def)

lemma Unmarshal_IPTEntry_Ok:
  "SizeOfIPTEntry \<le> length optVal \<Longrightarrow>
   Unmarshal_IPTEntry (take SizeOfIPTEntry optVal) = Ok (entry_header optVal)"
  by (simp add: entry_header_def Unmarshal_IPTEntry_def)

lemma parseEntry_unfold:
  "parseEntry um optVal =
     (if length optVal < SizeOfIPTEntry then Err ErrInvalidArgument
      else if unat (en_TargetOffset (entry_header optVal)) < SizeOfIPTEntry then Err ErrInvalidArgument
      else
        (case filterFromIPTIP (en_IP (entry_header optVal)) of
           Panic \<Rightarrow> Panic
         | Err e \<Rightarrow> Err ErrInvalidArgument
         | Ok flt \<Rightarrow>
            (let m = unat (en_TargetOffset (entry_header optVal) - of_nat SizeOfIPTEntry);
                 t = unat (en_NextOffset (entry_header optVal) - en_TargetOffset (entry_header optVal))
             in if length optVal < SizeOfIPTEntry + m then Err ErrInvalidArgument
                else
                  (case parseMatchers um flt (take m (drop SizeOfIPTEntry optVal)) of
                     Panic \<Rightarrow> Panic
                   | Err e \<Rightarrow> Err ErrInvalidArgument
                   | Ok matchers \<Rightarrow>
                       if length optVal < SizeOfIPTEntry + m + t then Err ErrInvalidArgument
                       else
                         (case parseTarget (take t (drop (SizeOfIPTEntry + m) optVal)) of
                            Panic \<Rightarrow> Panic
                          | Err e \<Rightarrow> Err ErrInvalidArgument
                          | Ok target \<Rightarrow>
                              Ok (\<lparr> Filter = flt, Matchers = matchers, Target = target \<rparr>,
                                  en_NextOffset (entry_header optVal),
                                  drop (SizeOfIPTEntry + m + t) optVal))))))"
proof (cases "length optVal < SizeOfIPTEntry")
  case True
  then show ?thesis by (simp add: parseEntry_def)
next
  case False
  then have u: "Unmarshal_IPTEntry (take SizeOfIPTEntry optVal) = Ok (entry_header optVal)"
    using Unmarshal_IPTEntry_Ok by simp
  show ?thesis
    using False u
    by (auto simp: parseEntry_def slice_to_def slice_from_def Let_def add.commute add.left_commute
        split: result.splits)
qed

lemma parseEntry_no_panic:
  "(\<forall>match flt buf. um match flt buf \<noteq> Panic) \<Longrightarrow> parseEntry um optVal \<noteq> Panic"
  using parseMatchers_no_panic [of um] parseTarget_no_panic
  by (auto simp: parseEntry_unfold Let_def filterFromIPTIP_def split: result.splits)

lemma parseEntry_Err: "parseEntry um optVal = Err e \<Longrightarrow> e = ErrInvalidArgument"
  by (auto simp: parseEntry_unfold Let_def split: result.splits if_splits)

lemma entry_header_append:
  "SizeOfIPTEntry \<le> length optVal \<Longrightarrow> entry_header (optVal @ extra) = entry_header optVal"
  by (simp add: entry_header_def)

lemma parseEntry_append:
  assumes "parseEntry um optVal = Ok (rule, nextOffset, rest)"
  shows "parseEntry um (optVal @ extra) = Ok (rule, nextOffset, rest @ extra)"
proof -
  from assms have len: "SizeOfIPTEntry \<le> length optVal"
    by (auto simp: parseEntry_unfold split: if_splits)
  note h = entry_header_append [OF len, of extra]
  show ?thesis
    using assms len
    by (auto simp: parseEntry_unfold [of um "optVal @ extra"] parseEntry_unfold [of um optVal]
        h Let_def split: result.splits if_splits)
qed

section \<open>SetEntries: the loop over the entries\<close>

lemma parseEntries_no_panic:
  "(\<forall>match flt buf. um match flt buf \<noteq> Panic) \<Longrightarrow>
   parseEntries um n optVal offset offsets table \<noteq> Panic"
proof (induction n arbitrary: optVal offset offsets table)
  case 0
  then show ?case by simp
next
  case (Suc n)
  then show ?case
    using parseEntry_no_panic [of um optVal]
    by (auto split: result.splits)
qed

lemma parseEntries_Err:
  "parseEntries um n optVal offset offsets table = Err e \<Longrightarrow> e = ErrInvalidArgument"
proof (induction n arbitrary: optVal offset offsets table)
  case 0
  then show ?case by simp
next
  case (Suc n)
  then show ?case
    by (auto split: result.splits dest: parseEntry_Err)
qed

lemma parseEntries_Ok:
  "parseEntries um n optVal offset offsets table = Ok (table', offsets') \<Longrightarrow>
   length (Rules table') = length (Rules table) + n \<and>
   length offsets' = length offsets + n \<and>
   take (length (Rules table)) (Rules table') = Rules table \<and>
   BuiltinChains table' = BuiltinChains table \<and>
   Underflows table' = Underflows table \<and>
   Metadata table' = Metadata table"
proof (induction n arbitrary: optVal offset offsets table)
  case 0
  then show ?case by simp
next
  case (Suc n)
  from Suc.prems obtain rule nextOffset rest where
    e: "parseEntry um optVal = Ok (rule, nextOffset, rest)"
    and r: "parseEntries um n rest (offset + ucast nextOffset) (offsets @ [offset])
              (table\<lparr> Rules := Rules table @ [rule] \<rparr>) = Ok (table', offsets')"
    by (auto split: result.splits)
  from Suc.IH [OF r] show ?case by (auto simp: take_Suc_conv_app_nth dest: arg_cong [where f = "take (length (Rules table))"])
qed

lemma parseEntries_append:
  "parseEntries um n optVal offset offsets table = Ok r \<Longrightarrow>
   parseEntries um n (optVal @ extra) offset offsets table = Ok r"
proof (induction n arbitrary: optVal offset offsets table)
  case 0
  then show ?case by simp
next
  case (Suc n)
  from Suc.prems obtain rule nextOffset rest where
    e: "parseEntry um optVal = Ok (rule, nextOffset, rest)"
    and r: "parseEntries um n rest (offset + ucast nextOffset) (offsets @ [offset])
              (table\<lparr> Rules := Rules table @ [rule] \<rparr>) = Ok r"
    by (auto split: result.splits)
  from parseEntry_append [OF e, of extra] Suc.IH [OF r] show ?case by simp
qed

section \<open>SetEntries: resolving the hooks\<close>

lemma hookFromLinux_Ok: "hook < NF_INET_NUMHOOKS \<Longrightarrow> hookFromLinux hook = Ok (all_hooks ! hook)"
proof -
  assume "hook < NF_INET_NUMHOOKS"
  then have "hook = 0 \<or> hook = 1 \<or> hook = 2 \<or> hook = 3 \<or> hook = 4"
    by (auto simp: abi)
  then show ?thesis
    by (auto simp: hookFromLinux_def all_hooks_def abi)
qed

lemma all_hooks_inj:
  "h < NF_INET_NUMHOOKS \<Longrightarrow> h' < NF_INET_NUMHOOKS \<Longrightarrow> all_hooks ! h = all_hooks ! h' \<Longrightarrow> h = h'"
proof -
  have d: "distinct all_hooks" by (simp add: all_hooks_def)
  have l: "length all_hooks = NF_INET_NUMHOOKS" by (simp add: all_hooks_def abi)
  show "h < NF_INET_NUMHOOKS \<Longrightarrow> h' < NF_INET_NUMHOOKS \<Longrightarrow> all_hooks ! h = all_hooks ! h' \<Longrightarrow> h = h'"
    using d l by (simp add: nth_eq_iff_index_eq)
qed

lemma ValidHooks_filter:
  assumes "filter_shape table"
  shows "ValidHooks table = 14"
proof -
  from assms have "BuiltinChains table Prerouting = None" "BuiltinChains table Postrouting = None"
    "BuiltinChains table Input \<noteq> None" "BuiltinChains table Forward \<noteq> None"
    "BuiltinChains table Output \<noteq> None"
    by (auto simp: filter_shape_def dom_def)
  then show ?thesis
    by (simp add: ValidHooks_def all_hooks_def)
qed

lemma valid_hook_filter:
  assumes "filter_shape table" "hook < NF_INET_NUMHOOKS"
  shows "(ValidHooks table AND push_bit hook 1 \<noteq> 0) \<longleftrightarrow> all_hooks ! hook \<in> {Input, Forward, Output}"
proof -
  from assms(2) have "hook = 0 \<or> hook = 1 \<or> hook = 2 \<or> hook = 3 \<or> hook = 4"
    by (auto simp: abi)
  then show ?thesis
    using ValidHooks_filter [OF assms(1)]
    by (auto simp: all_hooks_def)
qed

lemma setHook_Rules [simp]: "Rules (setHook hk he uf k offs t) = Rules t"
  by (induction offs arbitrary: k t) (simp_all add: Let_def)

lemma setHook_Metadata [simp]: "Metadata (setHook hk he uf k offs t) = Metadata t"
  by (induction offs arbitrary: k t) (simp_all add: Let_def)

lemma setHook_chain_absent:
  "he \<notin> set offs \<Longrightarrow> BuiltinChains (setHook hk he uf k offs t) = BuiltinChains t"
  by (induction offs arbitrary: k t) (auto simp: Let_def)

lemma setHook_underflow_absent:
  "uf \<notin> set offs \<Longrightarrow> Underflows (setHook hk he uf k offs t) = Underflows t"
  by (induction offs arbitrary: k t) (auto simp: Let_def)

lemma setHook_chain_present:
  "he \<in> set offs \<Longrightarrow>
   \<exists>i<length offs. offs ! i = he \<and>
     BuiltinChains (setHook hk he uf k offs t) = (BuiltinChains t)(hk \<mapsto> int (k + i))"
proof (induction offs arbitrary: k t)
  case Nil
  then show ?case by simp
next
  case (Cons offset rest)
  define t1 where "t1 = (if offset = he
                   then t\<lparr> BuiltinChains := (BuiltinChains t)(hk \<mapsto> int k) \<rparr> else t)"
  define t2 where "t2 = (if offset = uf
                   then t1\<lparr> Underflows := (Underflows t1)(hk \<mapsto> int k) \<rparr> else t1)"
  have s: "setHook hk he uf k (offset # rest) t = setHook hk he uf (Suc k) rest t2"
    by (simp add: t1_def t2_def Let_def)
  have b2: "BuiltinChains t2 = BuiltinChains t1" by (simp add: t2_def)
  show ?case
  proof (cases "he \<in> set rest")
    case True
    from Cons.IH [OF True, of "Suc k" t2] obtain i where
      i: "i < length rest" "rest ! i = he"
      "BuiltinChains (setHook hk he uf (Suc k) rest t2) = (BuiltinChains t2)(hk \<mapsto> int (Suc k + i))"
      by blast
    have "BuiltinChains (setHook hk he uf k (offset # rest) t) = (BuiltinChains t)(hk \<mapsto> int (k + Suc i))"
      using i(3) s b2 by (simp add: t1_def)
    moreover have "Suc i < length (offset # rest)" "(offset # rest) ! Suc i = he"
      using i by simp_all
    ultimately show ?thesis by blast
  next
    case False
    with Cons.prems have e: "offset = he" by simp
    have "BuiltinChains (setHook hk he uf k (offset # rest) t) = (BuiltinChains t)(hk \<mapsto> int (k + 0))"
      using s b2 e setHook_chain_absent [OF False, of hk uf "Suc k" t2] by (simp add: t1_def)
    moreover have "0 < length (offset # rest)" "(offset # rest) ! 0 = he"
      using e by simp_all
    ultimately show ?thesis by blast
  qed
qed

lemma setHook_underflow_present:
  "uf \<in> set offs \<Longrightarrow>
   \<exists>i<length offs. offs ! i = uf \<and>
     Underflows (setHook hk he uf k offs t) = (Underflows t)(hk \<mapsto> int (k + i))"
proof (induction offs arbitrary: k t)
  case Nil
  then show ?case by simp
next
  case (Cons offset rest)
  define t1 where "t1 = (if offset = he
                   then t\<lparr> BuiltinChains := (BuiltinChains t)(hk \<mapsto> int k) \<rparr> else t)"
  define t2 where "t2 = (if offset = uf
                   then t1\<lparr> Underflows := (Underflows t1)(hk \<mapsto> int k) \<rparr> else t1)"
  have s: "setHook hk he uf k (offset # rest) t = setHook hk he uf (Suc k) rest t2"
    by (simp add: t1_def t2_def Let_def)
  have b1: "Underflows t1 = Underflows t" by (simp add: t1_def)
  show ?case
  proof (cases "uf \<in> set rest")
    case True
    from Cons.IH [OF True, of "Suc k" t2] obtain i where
      i: "i < length rest" "rest ! i = uf"
      "Underflows (setHook hk he uf (Suc k) rest t2) = (Underflows t2)(hk \<mapsto> int (Suc k + i))"
      by blast
    have "Underflows (setHook hk he uf k (offset # rest) t) = (Underflows t)(hk \<mapsto> int (k + Suc i))"
      using i(3) s b1 by (simp add: t2_def)
    moreover have "Suc i < length (offset # rest)" "(offset # rest) ! Suc i = uf"
      using i by simp_all
    ultimately show ?thesis by blast
  next
    case False
    with Cons.prems have e: "offset = uf" by simp
    have "Underflows (setHook hk he uf k (offset # rest) t) = (Underflows t)(hk \<mapsto> int (k + 0))"
      using s b1 e setHook_underflow_absent [OF False, of hk he "Suc k" t2] by (simp add: t2_def)
    moreover have "0 < length (offset # rest)" "(offset # rest) ! 0 = uf"
      using e by simp_all
    ultimately show ?thesis by blast
  qed
qed

lemma setHook_chain_other:
  "h \<noteq> hk \<Longrightarrow> BuiltinChains (setHook hk he uf k offs t) h = BuiltinChains t h"
  by (induction offs arbitrary: k t) (simp_all add: Let_def)

lemma setHook_underflow_other:
  "h \<noteq> hk \<Longrightarrow> Underflows (setHook hk he uf k offs t) h = Underflows t h"
  by (induction offs arbitrary: k t) (simp_all add: Let_def)

lemma setHook_filter_shape:
  assumes "filter_shape t" "hk \<in> {Input, Forward, Output}"
  shows "filter_shape (setHook hk he uf k offs t)"
proof -
  have 1: "dom (BuiltinChains (setHook hk he uf k offs t)) = dom (BuiltinChains t)"
  proof (cases "he \<in> set offs")
    case True
    from assms have "hk \<in> dom (BuiltinChains t)" by (auto simp: filter_shape_def)
    then have "dom ((BuiltinChains t)(hk \<mapsto> v)) = dom (BuiltinChains t)" for v
      by (simp add: insert_absorb)
    with setHook_chain_present [OF True, of hk uf k t] show ?thesis
      by fastforce
  next
    case False
    then show ?thesis by (simp add: setHook_chain_absent)
  qed
  have 2: "dom (Underflows (setHook hk he uf k offs t)) = dom (Underflows t)"
  proof (cases "uf \<in> set offs")
    case True
    from assms have "hk \<in> dom (Underflows t)" by (auto simp: filter_shape_def)
    then have "dom ((Underflows t)(hk \<mapsto> v)) = dom (Underflows t)" for v
      by (simp add: insert_absorb)
    with setHook_underflow_present [OF True, of hk he k t] show ?thesis
      by fastforce
  next
    case False
    then show ?thesis by (simp add: setHook_underflow_absent)
  qed
  from 1 2 assms(1) show ?thesis by (simp add: filter_shape_def)
qed

lemma resolveHooks_step:
  assumes "filter_shape t" "hook < NF_INET_NUMHOOKS"
  shows "resolveHooks replace offsets (hook # hooks) t =
     (if all_hooks ! hook \<in> {Input, Forward, Output} then
        (let t1 = setHook (all_hooks ! hook) (rp_HookEntry replace ! hook)
                    (rp_Underflow replace ! hook) 0 offsets t
         in if map_get (BuiltinChains t1) (all_hooks ! hook) = HookUnset then Err ErrInvalidArgument
            else if map_get (Underflows t1) (all_hooks ! hook) = HookUnset then Err ErrInvalidArgument
            else resolveHooks replace offsets hooks t1)
      else resolveHooks replace offsets hooks t)"
  using valid_hook_filter [OF assms] hookFromLinux_Ok [OF assms(2)]
  by (simp add: Let_def)

lemma resolveHooks_no_panic:
  "filter_shape t \<Longrightarrow> \<forall>h\<in>set hooks. h < NF_INET_NUMHOOKS \<Longrightarrow>
   resolveHooks replace offsets hooks t \<noteq> Panic"
proof (induction hooks arbitrary: t)
  case Nil
  then show ?case by simp
next
  case (Cons hook hooks)
  from Cons.prems have h: "hook < NF_INET_NUMHOOKS" by simp
  show ?case
    using Cons.IH Cons.prems setHook_filter_shape [OF Cons.prems(1)]
    by (simp add: resolveHooks_step [OF Cons.prems(1) h] Let_def del: resolveHooks.simps)
qed

lemma resolveHooks_Err:
  "resolveHooks replace offsets hooks t = Err e \<Longrightarrow> e = ErrInvalidArgument"
proof (induction hooks arbitrary: t)
  case Nil
  then show ?case by simp
next
  case (Cons hook hooks)
  then show ?case
    by (auto simp: hookFromLinux_def Let_def split: if_splits result.splits)
qed

lemma unset_hooks_setHook:
  assumes "unset_hooks (hook # hooks) t" "distinct (hook # hooks)"
    "\<forall>h\<in>set (hook # hooks). h < NF_INET_NUMHOOKS"
  shows "unset_hooks hooks (setHook (all_hooks ! hook) he uf k offs t)"
proof -
  have "all_hooks ! h \<noteq> all_hooks ! hook" if "h \<in> set hooks" for h
    using that assms(2,3) all_hooks_inj [of h hook] by auto
  then show ?thesis
    using assms(1) by (simp add: unset_hooks_def setHook_chain_other setHook_underflow_other)
qed

lemma resolveHooks_unset:
  assumes "filter_shape t" "distinct hooks" "\<forall>h\<in>set hooks. h < NF_INET_NUMHOOKS"
    "unset_hooks hooks t" "hook \<in> set hooks" "all_hooks ! hook \<in> {Input, Forward, Output}"
    "rp_HookEntry replace ! hook \<notin> set offsets \<or> rp_Underflow replace ! hook \<notin> set offsets"
  shows "resolveHooks replace offsets hooks t = Err ErrInvalidArgument"
  using assms(1-5)
proof (induction hooks arbitrary: t)
  case Nil
  then show ?case by simp
next
  case (Cons h hooks)
  from Cons.prems have hl: "h < NF_INET_NUMHOOKS" by simp
  note step = resolveHooks_step [OF Cons.prems(1) hl, of replace offsets hooks]
  show ?case
  proof (cases "all_hooks ! h \<in> {Input, Forward, Output}")
    case False
    with Cons.prems assms(6) have "hook \<in> set hooks" by auto
    moreover have "unset_hooks hooks t" using Cons.prems(4) by (simp add: unset_hooks_def)
    ultimately show ?thesis
      using Cons.IH [of t] Cons.prems False step by simp
  next
    case True
    define t1 where "t1 = setHook (all_hooks ! h) (rp_HookEntry replace ! h)
                    (rp_Underflow replace ! h) 0 offsets t"
    have fs: "filter_shape t1"
      unfolding t1_def using setHook_filter_shape [OF Cons.prems(1)] True by blast
    have un: "unset_hooks hooks t1"
      unfolding t1_def using unset_hooks_setHook [OF Cons.prems(4) Cons.prems(2) Cons.prems(3)] .
    show ?thesis
    proof (cases "h = hook")
      case eq: True
      from Cons.prems(4) True have
        u: "BuiltinChains t (all_hooks ! h) = Some HookUnset"
           "Underflows t (all_hooks ! h) = Some HookUnset"
        by (auto simp: unset_hooks_def)
      from assms(7) eq have
        "map_get (BuiltinChains t1) (all_hooks ! h) = HookUnset
         \<or> map_get (Underflows t1) (all_hooks ! h) = HookUnset"
        using u by (auto simp: t1_def setHook_chain_absent setHook_underflow_absent map_get_def)
      then show ?thesis
        using True step by (auto simp: Let_def t1_def)
    next
      case ne: False
      with Cons.prems have "hook \<in> set hooks" by simp
      with Cons.IH [OF fs _ _ un] Cons.prems have
        "resolveHooks replace offsets hooks t1 = Err ErrInvalidArgument"
        by simp
      then show ?thesis
        using True step by (simp add: Let_def t1_def)
    qed
  qed
qed

lemma resolveHooks_Ok:
  assumes "resolveHooks replace offsets hooks t = Ok t'"
    "filter_shape t" "distinct hooks" "\<forall>h\<in>set hooks. h < NF_INET_NUMHOOKS" "unset_hooks hooks t"
  shows "filter_shape t' \<and> Rules t' = Rules t \<and> Metadata t' = Metadata t \<and>
     (\<forall>h<NF_INET_NUMHOOKS. h \<notin> set hooks \<longrightarrow>
        BuiltinChains t' (all_hooks ! h) = BuiltinChains t (all_hooks ! h) \<and>
        Underflows t' (all_hooks ! h) = Underflows t (all_hooks ! h)) \<and>
     (\<forall>h\<in>set hooks. all_hooks ! h \<in> {Input, Forward, Output} \<longrightarrow>
        (\<exists>i j. i < length offsets \<and> j < length offsets \<and>
           offsets ! i = rp_HookEntry replace ! h \<and> offsets ! j = rp_Underflow replace ! h \<and>
           BuiltinChains t' (all_hooks ! h) = Some (int i) \<and>
           Underflows t' (all_hooks ! h) = Some (int j)))"
  using assms
proof (induction hooks arbitrary: t)
  case Nil
  then show ?case by simp
next
  case (Cons h hooks)
  from Cons.prems have hl: "h < NF_INET_NUMHOOKS" by simp
  note step = resolveHooks_step [OF Cons.prems(2) hl, of replace offsets hooks]
  have d: "distinct hooks" "\<forall>h\<in>set hooks. h < NF_INET_NUMHOOKS" "h \<notin> set hooks"
    using Cons.prems by simp_all
  show ?case
  proof (cases "all_hooks ! h \<in> {Input, Forward, Output}")
    case False
    have un: "unset_hooks hooks t" using Cons.prems(5) by (simp add: unset_hooks_def)
    from Cons.prems(1) False step have r: "resolveHooks replace offsets hooks t = Ok t'" by simp
    from Cons.IH [OF r Cons.prems(2) d(1) d(2) un] False show ?thesis by auto
  next
    case True
    define hk where "hk = all_hooks ! h"
    define t1 where "t1 = setHook hk (rp_HookEntry replace ! h)
                    (rp_Underflow replace ! h) 0 offsets t"
    have fs: "filter_shape t1"
      unfolding t1_def hk_def using setHook_filter_shape [OF Cons.prems(2)] True by blast
    have un: "unset_hooks hooks t1"
      unfolding t1_def hk_def
      using unset_hooks_setHook [OF Cons.prems(5) Cons.prems(3) Cons.prems(4)] .
    from Cons.prems(1) True step have
      c1: "map_get (BuiltinChains t1) hk \<noteq> HookUnset"
      and c2: "map_get (Underflows t1) hk \<noteq> HookUnset"
      and r: "resolveHooks replace offsets hooks t1 = Ok t'"
      by (auto simp: Let_def t1_def hk_def split: if_splits)
    from Cons.prems(5) True have
      u: "BuiltinChains t hk = Some HookUnset" "Underflows t hk = Some HookUnset"
      by (auto simp: unset_hooks_def hk_def)
    have he: "rp_HookEntry replace ! h \<in> set offsets"
    proof (rule ccontr)
      assume "rp_HookEntry replace ! h \<notin> set offsets"
      then have "BuiltinChains t1 hk = Some HookUnset"
        using u by (simp add: t1_def setHook_chain_absent)
      with c1 show False by (simp add: map_get_def)
    qed
    have uf: "rp_Underflow replace ! h \<in> set offsets"
    proof (rule ccontr)
      assume "rp_Underflow replace ! h \<notin> set offsets"
      then have "Underflows t1 hk = Some HookUnset"
        using u by (simp add: t1_def setHook_underflow_absent)
      with c2 show False by (simp add: map_get_def)
    qed
    from setHook_chain_present [OF he, of hk "rp_Underflow replace ! h" 0 t] obtain i where
      i: "i < length offsets" "offsets ! i = rp_HookEntry replace ! h"
         "BuiltinChains t1 hk = Some (int i)"
      by (auto simp: t1_def)
    from setHook_underflow_present [OF uf, of hk "rp_HookEntry replace ! h" 0 t] obtain j where
      j: "j < length offsets" "offsets ! j = rp_Underflow replace ! h"
         "Underflows t1 hk = Some (int j)"
      by (auto simp: t1_def)
    note IH = Cons.IH [OF r fs d(1) d(2) un]
    have keep: "BuiltinChains t' hk = BuiltinChains t1 hk" "Underflows t' hk = Underflows t1 hk"
      using IH hl d(3) by (auto simp: hk_def)
    have other: "BuiltinChains t1 (all_hooks ! h') = BuiltinChains t (all_hooks ! h') \<and>
        Underflows t1 (all_hooks ! h') = Underflows t (all_hooks ! h')"
      if "h' < NF_INET_NUMHOOKS" "h' \<noteq> h" for h'
    proof -
      have "all_hooks ! h' \<noteq> hk" using that hl all_hooks_inj [of h' h] by (auto simp: hk_def)
      then show ?thesis by (simp add: t1_def setHook_chain_other setHook_underflow_other)
    qed
    have 1: "filter_shape t'" using IH by simp
    have 2: "Rules t' = Rules t" "Metadata t' = Metadata t" using IH by (simp_all add: t1_def)
    have 3: "\<forall>h'<NF_INET_NUMHOOKS. h' \<notin> set (h # hooks) \<longrightarrow>
        BuiltinChains t' (all_hooks ! h') = BuiltinChains t (all_hooks ! h') \<and>
        Underflows t' (all_hooks ! h') = Underflows t (all_hooks ! h')"
      using IH other by auto
    have 4: "\<forall>h'\<in>set (h # hooks). all_hooks ! h' \<in> {Input, Forward, Output} \<longrightarrow>
        (\<exists>i j. i < length offsets \<and> j < length offsets \<and>
           offsets ! i = rp_HookEntry replace ! h' \<and> offsets ! j = rp_Underflow replace ! h' \<and>
           BuiltinChains t' (all_hooks ! h') = Some (int i) \<and>
           Underflows t' (all_hooks ! h') = Some (int j))"
    proof
      fix h' assume m: "h' \<in> set (h # hooks)"
      show "all_hooks ! h' \<in> {Input, Forward, Output} \<longrightarrow>
        (\<exists>i j. i < length offsets \<and> j < length offsets \<and>
           offsets ! i = rp_HookEntry replace ! h' \<and> offsets ! j = rp_Underflow replace ! h' \<and>
           BuiltinChains t' (all_hooks ! h') = Some (int i) \<and>
           Underflows t' (all_hooks ! h') = Some (int j))"
      proof (cases "h' = h")
        case True
        then show ?thesis using i j keep by (auto simp: hk_def)
      next
        case False
        with m have "h' \<in> set hooks" by simp
        then show ?thesis using IH by blast
      qed
    qed
    from 1 2 3 4 show ?thesis by blast
  qed
qed

section \<open>SetEntries: the chains and the whole decoder\<close>

lemma checkChains_Err: "checkChains hooks t = Err e \<Longrightarrow> e = ErrInvalidArgument"
  by (induction hooks) (auto split: option.splits if_splits)

lemma checkChains_no_panic:
  "\<forall>h\<in>set hooks. \<forall>i. h \<noteq> Input \<longrightarrow> BuiltinChains t h = Some i \<longrightarrow>
       0 \<le> i \<and> i < int (length (Rules t)) \<Longrightarrow>
   checkChains hooks t \<noteq> Panic"
  by (induction hooks) (auto split: option.splits)

lemma checkChains_Ok:
  "checkChains hooks t = Ok u \<Longrightarrow>
   \<forall>h\<in>set hooks. \<forall>i. h \<noteq> Input \<longrightarrow> BuiltinChains t h = Some i \<longrightarrow>
       0 \<le> i \<and> i < int (length (Rules t)) \<and>
       Target (Rules t ! nat i) = UnconditionalAcceptTarget"
  by (induction hooks) (auto split: option.splits if_splits)

lemma checkChains_reject:
  "\<forall>h\<in>set hooks. \<forall>i. h \<noteq> Input \<longrightarrow> BuiltinChains t h = Some i \<longrightarrow>
       0 \<le> i \<and> i < int (length (Rules t)) \<Longrightarrow>
   \<exists>h\<in>set hooks. \<exists>i. h \<noteq> Input \<and> BuiltinChains t h = Some i \<and>
       Target (Rules t ! nat i) \<noteq> UnconditionalAcceptTarget \<Longrightarrow>
   checkChains hooks t = Err ErrInvalidArgument"
proof (induction hooks)
  case Nil
  then show ?case by simp
next
  case (Cons h hooks)
  then show ?case
    by (cases "checkChains hooks t"; cases "BuiltinChains t h")
       (auto dest: checkChains_Err checkChains_Ok simp: checkChains_no_panic)
qed

lemma EmptyFilterTable_shape: "filter_shape (EmptyFilterTable ())"
  by (auto simp: filter_shape_def EmptyFilterTable_def dom_def)

lemma EmptyFilterTable_unset: "unset_hooks hooks (EmptyFilterTable ())"
  by (auto simp: unset_hooks_def EmptyFilterTable_def)

lemma numhooks_list:
  "distinct [0..<NF_INET_NUMHOOKS]" "\<forall>h\<in>set [0..<NF_INET_NUMHOOKS]. h < NF_INET_NUMHOOKS"
  by simp_all

lemma Unmarshal_IPTReplace_Ok:
  "SizeOfIPTReplace \<le> length optVal \<Longrightarrow>
   Unmarshal_IPTReplace (take SizeOfIPTReplace optVal) = Ok (replace_of optVal)"
  by (simp add: replace_of_def Unmarshal_IPTReplace_def)

lemma SetEntries_table_unfold:
  "SetEntries_table um optVal =
     (if length optVal < SizeOfIPTReplace then Err ErrInvalidArgument
      else if goString (rp_Name (replace_of optVal)) = TablenameFilter then
        rbind (parseEntries um (unat (rp_NumEntries (replace_of optVal)))
                 (drop SizeOfIPTReplace optVal) 0 [] (EmptyFilterTable ()))
          (\<lambda>(table, offsets).
        rbind (resolveHooks (replace_of optVal) offsets [0..<NF_INET_NUMHOOKS] table) (\<lambda>table.
        rbind (checkChains all_hooks table) (\<lambda>_. Ok (replace_of optVal, table))))
      else Err ErrInvalidArgument)"
  using Unmarshal_IPTReplace_Ok [of optVal]
  by (simp add: SetEntries_table_def slice_to_def slice_from_def)

lemma parsed_table:
  assumes "parseEntries um n optVal 0 [] (EmptyFilterTable ()) = Ok (table :: 'm Table, offsets)"
  shows "filter_shape table \<and> unset_hooks hooks table \<and>
    length offsets = length (Rules table) \<and> length (Rules table) = n"
proof -
  from parseEntries_Ok [OF assms] have
    e: "BuiltinChains table = BuiltinChains (EmptyFilterTable () :: 'm Table)"
       "Underflows table = Underflows (EmptyFilterTable () :: 'm Table)"
    and l: "length (Rules table) = n" "length offsets = n"
    by (simp_all add: EmptyFilterTable_def)
  have "filter_shape table"
    unfolding filter_shape_def e by (rule EmptyFilterTable_shape [unfolded filter_shape_def])
  moreover have "unset_hooks hooks table"
    unfolding unset_hooks_def e by (rule EmptyFilterTable_unset [unfolded unset_hooks_def])
  ultimately show ?thesis using l by simp
qed

lemma all_hooks_nth: "hook_index h < NF_INET_NUMHOOKS \<and> all_hooks ! hook_index h = h"
  by (cases h) (simp_all add: all_hooks_def abi)

lemma resolved_in_range:
  assumes p: "parseEntries um n optVal 0 [] (EmptyFilterTable ()) = Ok (table, offsets)"
    and r: "resolveHooks replace offsets [0..<NF_INET_NUMHOOKS] table = Ok table'"
  shows "\<forall>h\<in>set hooks. \<forall>i. h \<noteq> Input \<longrightarrow> BuiltinChains table' h = Some i \<longrightarrow>
       0 \<le> i \<and> i < int (length (Rules table'))"
proof (intro ballI allI impI)
  fix h i assume hi: "BuiltinChains table' h = Some i"
  from parsed_table [OF p, of "[0..<NF_INET_NUMHOOKS]"] have
    pt: "filter_shape table" "unset_hooks [0..<NF_INET_NUMHOOKS] table"
      "length offsets = length (Rules table)"
    by simp_all
  note ok = resolveHooks_Ok [OF r pt(1) numhooks_list pt(2)]
  from ok have fs: "filter_shape table'" and ru: "Rules table' = Rules table" by simp_all
  from fs hi have "h \<in> {Input, Forward, Output}" by (auto simp: filter_shape_def)
  moreover obtain k where k: "k < NF_INET_NUMHOOKS" "all_hooks ! k = h"
    using all_hooks_nth [of h] by blast
  ultimately obtain i' where "i' < length offsets" "BuiltinChains table' h = Some (int i')"
    using ok k by fastforce
  with hi pt(3) ru show "0 \<le> i \<and> i < int (length (Rules table'))" by simp
qed

lemma SetEntries_table_no_panic:
  assumes "\<forall>match flt buf. um match flt buf \<noteq> Panic"
  shows "SetEntries_table um optVal \<noteq> Panic"
proof (cases "parseEntries um (unat (rp_NumEntries (replace_of optVal)))
                 (drop SizeOfIPTReplace optVal) 0 [] (EmptyFilterTable ())")
  case (Ok r)
  obtain table offsets where r: "r = (table, offsets)" by (cases r)
  note p = Ok [unfolded r]
  from parsed_table [OF p, of "[0..<NF_INET_NUMHOOKS]"] have
    pt: "filter_shape table" "unset_hooks [0..<NF_INET_NUMHOOKS] table"
    by simp_all
  show ?thesis
  proof (cases "resolveHooks (replace_of optVal) offsets [0..<NF_INET_NUMHOOKS] table")
    case (Ok table')
    from checkChains_no_panic [OF resolved_in_range [OF p Ok, of all_hooks]]
    have "checkChains all_hooks table' \<noteq> Panic" .
    then show ?thesis
      using p Ok by (cases "checkChains all_hooks table'") (simp_all add: SetEntries_table_unfold)
  next
    case (Err e)
    then show ?thesis using p by (simp add: SetEntries_table_unfold)
  next
    case Panic
    with resolveHooks_no_panic [OF pt(1) numhooks_list(2)] show ?thesis by blast
  qed
next
  case (Err e)
  then show ?thesis by (simp add: SetEntries_table_unfold)
next
  case Panic
  with parseEntries_no_panic [OF assms] show ?thesis by blast
qed

lemma rbind_Err: "rbind m f = Err e \<Longrightarrow> m = Err e \<or> (\<exists>x. m = Ok x \<and> f x = Err e)"
  by (cases m) auto

lemma rbind_Ok: "rbind m f = Ok y \<Longrightarrow> \<exists>x. m = Ok x \<and> f x = Ok y"
  by (cases m) auto

lemma SetEntries_table_Err: "SetEntries_table um optVal = Err e \<Longrightarrow> e = ErrInvalidArgument"
  by (auto simp: SetEntries_table_unfold split: if_splits
      dest!: rbind_Err dest: parseEntries_Err resolveHooks_Err checkChains_Err)

section \<open>Evaluating the decoder on standard entries\<close>

lemma u32_roundtrip: "u32_le (put_u32 w) = w"
proof (rule bit_word_eqI)
  fix n assume "n < LENGTH(32)"
  then consider "n < 8" | "8 \<le> n \<and> n < 16" | "16 \<le> n \<and> n < 24" | "24 \<le> n \<and> n < 32"
    by fastforce
  then show "bit (u32_le (put_u32 w)) n = bit w n"
    by cases (auto simp: u32_le_def put_u32_def bit_simps)
qed

lemma parseMatchers_Nil: "parseMatchers um flt [] = Ok []"
  by (simp add: parseMatchers_def parseMatchers_loop_Nil)

lemma standard_entry_header:
  "entry_header (standard_entry verdict @ rest) =
     \<lparr> en_IP = zero_IPTIP, en_NFCache = 0, en_TargetOffset = 112, en_NextOffset = 152,
       en_Comeback = 0, en_Pcnt = 0, en_Bcnt = 0 \<rparr>"
  by (simp add: entry_header_def standard_entry_def decode_IPTEntry_def decode_IPTIP_def
      zero_IPTIP_def bytes_at_def put_u16_def put_u32_def u16_le_def u32_le_def u64_le_def abi)

lemma standard_entry_length: "length (standard_entry verdict) = 152"
  by (simp add: standard_entry_def put_u16_def put_u32_def)

lemma standard_entry_target:
  "drop 112 (standard_entry verdict)
     = put_u16 40 @ replicate 30 0 @ put_u32 verdict @ replicate 4 0"
  by (simp add: standard_entry_def put_u16_def put_u32_def)

lemma parseTarget_standard:
  "parseTarget (put_u16 40 @ replicate 30 0 @ put_u32 verdict @ replicate 4 0) =
     (if verdict = - 2 then Ok UnconditionalAcceptTarget
      else if verdict = - 1 then Ok UnconditionalDropTarget
      else if verdict = - 4 then Err ErrUnsupportedVerdictQueue
      else if verdict = - 5 then Err ErrUnsupportedVerdictReturn
      else Err (ErrUnknownIptablesVerdict verdict))"
proof -
  have v: "bytes_at 32 4 (put_u16 40 @ replicate 30 0 @ put_u32 verdict @ replicate 4 0)
             = put_u32 verdict"
    by (simp add: bytes_at_def put_u16_def put_u32_def)
  have n: "goString (bytes_at 2 29 (put_u16 40 @ replicate 30 0 @ put_u32 verdict @ replicate 4 0)) = []"
    by (simp add: bytes_at_def put_u16_def goString_def)
  have l: "length (put_u16 40 @ replicate 30 0 @ put_u32 verdict @ replicate 4 0) = 40"
    by (simp add: put_u16_def put_u32_def)
  show ?thesis
    by (simp only: parseTarget_unfold v n l u32_roundtrip) simp
qed

lemma parseEntry_eval:
  assumes "SizeOfIPTEntry \<le> length optVal" "entry_header optVal = H"
    "SizeOfIPTEntry \<le> unat (en_TargetOffset H)" "filterFromIPTIP (en_IP H) = Ok flt"
    "unat (en_TargetOffset H - of_nat SizeOfIPTEntry) = m"
    "unat (en_NextOffset H - en_TargetOffset H) = t"
    "SizeOfIPTEntry + m + t \<le> length optVal"
    "parseMatchers um flt (take m (drop SizeOfIPTEntry optVal)) = Ok ms"
    "parseTarget (take t (drop (SizeOfIPTEntry + m) optVal)) = Ok target"
  shows "parseEntry um optVal =
     Ok (\<lparr> Filter = flt, Matchers = ms, Target = target \<rparr>, en_NextOffset H,
         drop (SizeOfIPTEntry + m + t) optVal)"
  unfolding parseEntry_unfold Let_def assms(2)
  using assms(1,3,7) by (simp add: assms(4,5,6,8,9))

lemma parseEntry_standard:
  assumes "verdict = - 2 \<and> target = UnconditionalAcceptTarget
         \<or> verdict = - 1 \<and> target = UnconditionalDropTarget"
  shows "parseEntry um (standard_entry verdict @ rest) =
     Ok (\<lparr> Filter = \<lparr> Protocol = 0 \<rparr>, Matchers = [], Target = target \<rparr>, 152, rest)"
proof -
  let ?H = "\<lparr> en_IP = zero_IPTIP, en_NFCache = 0, en_TargetOffset = 112, en_NextOffset = 152,
       en_Comeback = 0, en_Pcnt = 0, en_Bcnt = 0 \<rparr>"
  let ?o = "standard_entry verdict @ rest"
  have 1: "SizeOfIPTEntry \<le> length ?o" by (simp add: standard_entry_length abi)
  have 2: "entry_header ?o = ?H" by (rule standard_entry_header)
  have 3: "SizeOfIPTEntry \<le> unat (en_TargetOffset ?H)" by (simp add: abi)
  have 4: "filterFromIPTIP (en_IP ?H) = Ok \<lparr> Protocol = 0 \<rparr>"
    by (simp add: filterFromIPTIP_def containsUnsupportedFields_def zero_IPTIP_def)
  have 5: "unat (en_TargetOffset ?H - of_nat SizeOfIPTEntry) = 0" by (simp add: abi)
  have 6: "unat (en_NextOffset ?H - en_TargetOffset ?H) = 40" by simp
  have 7: "SizeOfIPTEntry + 0 + 40 \<le> length ?o" by (simp add: standard_entry_length abi)
  have 8: "parseMatchers um \<lparr> Protocol = 0 \<rparr> (take 0 (drop SizeOfIPTEntry ?o)) = Ok []"
    by (simp add: parseMatchers_Nil)
  have "take 40 (drop (SizeOfIPTEntry + 0) ?o) = take 40 (drop 112 (standard_entry verdict))"
    by (simp add: standard_entry_length abi)
  also have "\<dots> = put_u16 40 @ replicate 30 0 @ put_u32 verdict @ replicate 4 0"
    by (simp add: standard_entry_target put_u16_def put_u32_def)
  finally have 9: "parseTarget (take 40 (drop (SizeOfIPTEntry + 0) ?o)) = Ok target"
    using assms by (auto simp: parseTarget_standard)
  have 10: "drop (SizeOfIPTEntry + 0 + 40) ?o = rest"
    by (simp add: standard_entry_length abi)
  from parseEntry_eval [OF 1 2 3 4 5 6 7 8 9] show ?thesis
    by (simp only: 10 IPTEntry.simps)
qed

lemma length_put_u32 [simp]: "length (put_u32 w) = 4"
  by (simp add: put_u32_def)

lemma replace_header_length:
  "length hookEntry = 5 \<Longrightarrow> length underflow = 5 \<Longrightarrow>
   length (replace_header num sz hookEntry underflow) = 96"
  by (simp add: replace_header_def copy_into_def str_def length_concat comp_def sum_list_triv)

lemma replace_of_header:
  "replace_of (replace_header num sz [h0, h1, h2, h3, h4] [u0, u1, u2, u3, u4] @ rest) =
     \<lparr> rp_Name = copy_into 32 (str ''filter''), rp_ValidHooks = 14, rp_NumEntries = num,
       rp_Size = sz, rp_HookEntry = [h0, h1, h2, h3, h4], rp_Underflow = [u0, u1, u2, u3, u4],
       rp_NumCounters = 0, rp_Counters = 0 \<rparr>"
proof -
  have u: "\<And>w a. take 4 (put_u32 w @ a) = put_u32 w" by simp
  have v: "u32_le (replicate 4 0) = 0" "u64_le (replicate 8 0) = 0"
    by (simp_all add: u32_le_def u64_le_def)
  have w: "put_u32 14 = [14, 0, 0, 0]" by (simp add: put_u32_def)
  have x: "u32_le [14, 0, 0, 0] = 14" by (simp add: u32_le_def)
  show ?thesis
    by (simp add: replace_of_def decode_IPTReplace_def replace_header_def bytes_at_def
        copy_into_def str_def abi u u32_roundtrip v upt_rec w x)
qed

lemma filter_name: "goString (copy_into 32 (str ''filter'')) = TablenameFilter"
  by (simp add: goString_def copy_into_def str_def TablenameFilter_def)

lemma SetEntries_table_header:
  "SetEntries_table um (replace_header num sz [h0, h1, h2, h3, h4] [u0, u1, u2, u3, u4] @ entries) =
     rbind (parseEntries um (unat num) entries 0 [] (EmptyFilterTable ()))
       (\<lambda>(table, offsets).
     rbind (resolveHooks (replace_of (replace_header num sz [h0, h1, h2, h3, h4] [u0, u1, u2, u3, u4]))
              offsets [0..<NF_INET_NUMHOOKS] table) (\<lambda>table.
     rbind (checkChains all_hooks table)
       (\<lambda>_. Ok (replace_of (replace_header num sz [h0, h1, h2, h3, h4] [u0, u1, u2, u3, u4]), table))))"
proof -
  let ?h = "replace_header num sz [h0, h1, h2, h3, h4] [u0, u1, u2, u3, u4]"
  have l: "length ?h = 96" by (simp add: replace_header_length)
  have r: "replace_of (?h @ entries) = replace_of ?h"
    using replace_of_header [of num sz h0 h1 h2 h3 h4 u0 u1 u2 u3 u4 "[]"]
    by (simp add: replace_of_header)
  have n: "rp_NumEntries (replace_of ?h) = num" "goString (rp_Name (replace_of ?h)) = TablenameFilter"
    using replace_of_header [of num sz h0 h1 h2 h3 h4 u0 u1 u2 u3 u4 "[]"]
    by (simp_all add: filter_name)
  show ?thesis
    unfolding SetEntries_table_unfold r by (simp add: l n abi)
qed

lemma parseEntries_one:
  "parseEntries no_unmarshal (Suc 0) (standard_entry (- 2) @ rest) 0 [] (EmptyFilterTable ()) =
     Ok ((EmptyFilterTable ())\<lparr> Rules := [accept_rule] \<rparr>, [0])"
  by (simp add: parseEntry_standard [of "- 2" UnconditionalAcceptTarget] accept_rule_def
      EmptyFilterTable_def)

lemma parseEntries_two:
  "parseEntries no_unmarshal (Suc (Suc 0)) (standard_entry (- 2) @ standard_entry (- 1) @ rest) 0 []
       (EmptyFilterTable ()) =
     Ok ((EmptyFilterTable ())\<lparr> Rules := [accept_rule, drop_rule] \<rparr>, [0, 152])"
  by (simp add: parseEntry_standard [of "- 2" UnconditionalAcceptTarget]
      parseEntry_standard [of "- 1" UnconditionalDropTarget] accept_rule_def drop_rule_def
      EmptyFilterTable_def)

lemma resolve_zero:
  "rp_HookEntry replace = [0, 0, 0, 0, 0] \<Longrightarrow> rp_Underflow replace = [0, 0, 0, 0, 0] \<Longrightarrow>
   resolveHooks replace [0] [0..<NF_INET_NUMHOOKS] ((EmptyFilterTable ())\<lparr> Rules := rs \<rparr>) =
     Ok \<lparr> Rules = rs, BuiltinChains = [Input \<mapsto> 0, Forward \<mapsto> 0, Output \<mapsto> 0],
          Underflows = [Input \<mapsto> 0, Forward \<mapsto> 0, Output \<mapsto> 0], Metadata = None \<rparr>"
  by (simp add: abi upt_rec ValidHooks_def all_hooks_def EmptyFilterTable_def hookFromLinux_def
      map_get_def HookUnset_def Let_def)

lemma SetEntries_table_one:
  "SetEntries_table no_unmarshal
     (replace_header 1 sz [0, 0, 0, 0, 0] [0, 0, 0, 0, 0] @ standard_entry (- 2) @ extra)
     = Ok (one_rule_replace sz, one_rule_table)"
proof -
  have r: "replace_of (replace_header 1 sz [0, 0, 0, 0, 0] [0, 0, 0, 0, 0]) = one_rule_replace sz"
    using replace_of_header [of 1 sz 0 0 0 0 0 0 0 0 0 0 "[]"]
    by (simp add: one_rule_replace_def)
  have h: "rp_HookEntry (one_rule_replace sz) = [0, 0, 0, 0, 0]"
    "rp_Underflow (one_rule_replace sz) = [0, 0, 0, 0, 0]"
    by (simp_all add: one_rule_replace_def)
  have c: "checkChains all_hooks one_rule_table = Ok ()"
    by (simp add: all_hooks_def one_rule_table_def accept_rule_def)
  have p: "parseEntries no_unmarshal (unat (1 :: 32 word)) (standard_entry (- 2) @ extra) 0 []
             (EmptyFilterTable ())
           = Ok ((EmptyFilterTable ())\<lparr> Rules := [accept_rule] \<rparr>, [0])"
    using parseEntries_one [of extra] by simp
  have z: "resolveHooks (one_rule_replace sz) [0] [0..<NF_INET_NUMHOOKS]
             ((EmptyFilterTable ())\<lparr> Rules := [accept_rule] \<rparr>) = Ok one_rule_table"
    unfolding one_rule_table_def by (rule resolve_zero [OF h])
  show ?thesis
    unfolding SetEntries_table_header r p rbind.simps prod.case z c ..
qed

lemma accept_blob_table:
  "SetEntries_table no_unmarshal accept_blob = Ok (one_rule_replace 152, one_rule_table)"
  using SetEntries_table_one [of 152 "[]"] by (simp add: accept_blob_def)

lemma wrong_size_blob_table:
  "SetEntries_table no_unmarshal wrong_size_blob = Ok (one_rule_replace 0, one_rule_table)"
  using SetEntries_table_one [of 0 "[]"] by (simp add: wrong_size_blob_def)

lemma no_unmarshal_no_panic: "\<forall>match flt buf. no_unmarshal match flt buf \<noteq> Panic"
  by (simp add: no_unmarshal_def)

section \<open>Safety and atomicity of SetEntries\<close>

lemma SetEntries_fst:
  "fst (SetEntries um stack optVal) =
     (case SetEntries_table um optVal of Ok r \<Rightarrow> Ok () | Err e \<Rightarrow> Err e | Panic \<Rightarrow> Panic)"
  by (simp add: SetEntries_def Let_def split: result.splits prod.splits)

text \<open>
  C3. Decoding is safe on every input. Provided \<^verbatim>\<open>unmarshalMatcher\<close> (the parameter
  \<open>um\<close>) does not panic, \<^verbatim>\<open>SetEntries\<close> on any byte sequence, and so on every prefix
  of any byte sequence, either succeeds or returns \<^verbatim>\<open>syserr.ErrInvalidArgument\<close>; and
  \<^verbatim>\<open>parseMatchers\<close>, \<^verbatim>\<open>parseTarget\<close> and \<^verbatim>\<open>filterFromIPTIP\<close> never panic. In the
  model a slice or a read beyond the length of the buffer is a panic, so none occurs.
\<close>

theorem decode_never_panics:
  assumes "\<forall>match flt buf. um match flt buf \<noteq> Panic"
  shows "fst (SetEntries um stack optVal) \<in> {Ok (), Err ErrInvalidArgument}
    \<and> (\<forall>n. fst (SetEntries um stack (take n optVal)) \<in> {Ok (), Err ErrInvalidArgument})
    \<and> parseMatchers um flt buf \<noteq> Panic
    \<and> parseTarget buf \<noteq> Panic
    \<and> filterFromIPTIP iptip \<noteq> Panic"
proof -
  have a: "fst (SetEntries um stack b) \<in> {Ok (), Err ErrInvalidArgument}" for b
    using SetEntries_table_no_panic [OF assms, of b] SetEntries_table_Err [of um b]
    by (cases "SetEntries_table um b") (auto simp: SetEntries_fst)
  show ?thesis
    using a parseMatchers_no_panic [OF assms] parseTarget_no_panic filterFromIPTIP_no_panic
    by blast
qed

lemma SetEntries_table_short:
  "length optVal < SizeOfIPTReplace \<Longrightarrow> SetEntries_table um optVal = Err ErrInvalidArgument"
  by (simp add: SetEntries_table_unfold)

theorem decode_never_panics_witness:
  "(\<forall>match flt buf. no_unmarshal match flt buf \<noteq> Panic)
   \<and> fst (SetEntries no_unmarshal empty_stack accept_blob) = Ok ()
   \<and> fst (SetEntries no_unmarshal empty_stack (take 95 accept_blob)) = Err ErrInvalidArgument
   \<and> fst (SetEntries no_unmarshal empty_stack (take 200 accept_blob)) \<noteq> Panic"
proof -
  note t = decode_never_panics [OF no_unmarshal_no_panic, of empty_stack accept_blob]
  have 1: "fst (SetEntries no_unmarshal empty_stack accept_blob) = Ok ()"
    by (simp add: SetEntries_fst accept_blob_table)
  have 2: "fst (SetEntries no_unmarshal empty_stack (take 95 accept_blob)) = Err ErrInvalidArgument"
    by (simp add: SetEntries_fst SetEntries_table_short abi)
  from t have "fst (SetEntries no_unmarshal empty_stack (take 200 accept_blob))
      \<in> {Ok (), Err ErrInvalidArgument}"
    by blast
  then have 3: "fst (SetEntries no_unmarshal empty_stack (take 200 accept_blob)) \<noteq> Panic"
    by auto
  from 1 2 3 no_unmarshal_no_panic show ?thesis by blast
qed

text \<open>
  C4. Replace is atomic. When \<^verbatim>\<open>SetEntries\<close> does not return success, the stack is the
  one before the call. When it returns success, the stack differs from the one before the
  call only at the name of the replace header, where the table built from the whole input,
  with the metadata of the header, has been stored; the table of every other name is
  unchanged.
\<close>

theorem SetEntries_atomic:
  "(fst (SetEntries um stack optVal) \<noteq> Ok () \<longrightarrow> snd (SetEntries um stack optVal) = stack)
   \<and> (fst (SetEntries um stack optVal) = Ok () \<longrightarrow>
        (\<exists>replace table. SetEntries_table um optVal = Ok (replace, table) \<and>
           snd (SetEntries um stack optVal) =
             stack\<lparr> tables := (tables stack)\<lparr> Tables := (Tables (tables stack))
               (goString (rp_Name replace) \<mapsto>
                  table\<lparr> Metadata := Some (metadata_of_replace replace) \<rparr>) \<rparr> \<rparr> \<and>
           (\<forall>name. name \<noteq> goString (rp_Name replace) \<longrightarrow>
              Tables (tables (snd (SetEntries um stack optVal))) name
                = Tables (tables stack) name)))"
proof (cases "SetEntries_table um optVal")
  case (Ok r)
  then show ?thesis by (cases r) (simp add: SetEntries_def Let_def)
next
  case (Err e)
  then show ?thesis by (simp add: SetEntries_def)
next
  case Panic
  then show ?thesis by (simp add: SetEntries_def)
qed

theorem SetEntries_atomic_witness:
  "fst (SetEntries no_unmarshal empty_stack []) \<noteq> Ok ()
   \<and> snd (SetEntries no_unmarshal empty_stack []) = empty_stack
   \<and> fst (SetEntries no_unmarshal empty_stack accept_blob) = Ok ()
   \<and> Tables (tables (snd (SetEntries no_unmarshal empty_stack accept_blob))) (str ''filter'')
       = Some (one_rule_table\<lparr> Metadata := Some (metadata_of_replace (one_rule_replace 152)) \<rparr>)
   \<and> Tables (tables (snd (SetEntries no_unmarshal empty_stack accept_blob))) (str ''nat'') = None"
proof -
  have 1: "fst (SetEntries no_unmarshal empty_stack []) \<noteq> Ok ()"
    by (simp add: SetEntries_fst SetEntries_table_short abi)
  with SetEntries_atomic [of no_unmarshal empty_stack "[]"]
  have 2: "snd (SetEntries no_unmarshal empty_stack []) = empty_stack" by blast
  have 3: "fst (SetEntries no_unmarshal empty_stack accept_blob) = Ok ()"
    by (simp add: SetEntries_fst accept_blob_table)
  with SetEntries_atomic [of no_unmarshal empty_stack accept_blob] accept_blob_table
  have s: "snd (SetEntries no_unmarshal empty_stack accept_blob) =
             empty_stack\<lparr> tables := (tables empty_stack)\<lparr> Tables := (Tables (tables empty_stack))
               (goString (rp_Name (one_rule_replace 152)) \<mapsto>
                  one_rule_table\<lparr> Metadata := Some (metadata_of_replace (one_rule_replace 152)) \<rparr>) \<rparr> \<rparr>"
    by auto
  have n: "goString (rp_Name (one_rule_replace 152)) = str ''filter''"
    using filter_name by (simp add: one_rule_replace_def TablenameFilter_def)
  have 4: "Tables (tables (snd (SetEntries no_unmarshal empty_stack accept_blob))) (str ''filter'')
       = Some (one_rule_table\<lparr> Metadata := Some (metadata_of_replace (one_rule_replace 152)) \<rparr>)"
    unfolding s n by simp
  have 5: "Tables (tables (snd (SetEntries no_unmarshal empty_stack accept_blob))) (str ''nat'') = None"
    unfolding s n by (simp add: empty_stack_def str_def)
  from 1 2 3 4 5 show ?thesis by blast
qed

section \<open>What SetEntries does not look at\<close>

lemma replace_of_append:
  "SizeOfIPTReplace \<le> length optVal \<Longrightarrow> replace_of (optVal @ extra) = replace_of optVal"
  by (simp add: replace_of_def)

lemma SetEntries_table_append:
  assumes "SetEntries_table um optVal = Ok r"
  shows "SetEntries_table um (optVal @ extra) = Ok r"
proof -
  from assms have len: "SizeOfIPTReplace \<le> length optVal"
    by (auto simp: SetEntries_table_unfold split: if_splits)
  from assms len have nm: "goString (rp_Name (replace_of optVal)) = TablenameFilter"
    by (auto simp: SetEntries_table_unfold split: if_splits)
  let ?R = "replace_of optVal"
  from assms len nm obtain p where
    p: "parseEntries um (unat (rp_NumEntries ?R)) (drop SizeOfIPTReplace optVal) 0 []
          (EmptyFilterTable ()) = Ok p"
    and q: "(\<lambda>(table, offsets).
        rbind (resolveHooks ?R offsets [0..<NF_INET_NUMHOOKS] table) (\<lambda>table.
        rbind (checkChains all_hooks table) (\<lambda>_. Ok (?R, table)))) p = Ok r"
    by (auto simp: SetEntries_table_unfold dest!: rbind_Ok)
  from parseEntries_append [OF p, of extra] have
    p': "parseEntries um (unat (rp_NumEntries ?R)) (drop SizeOfIPTReplace optVal @ extra) 0 []
          (EmptyFilterTable ()) = Ok p" .
  show ?thesis
    unfolding SetEntries_table_unfold [of um "optVal @ extra"] replace_of_append [OF len]
    using len nm q by (simp add: p')
qed

lemma with_size_length:
  "SizeOfIPTReplace \<le> length optVal \<Longrightarrow> length (with_size sz optVal) = length optVal"
  by (simp add: with_size_def abi)

lemma with_size_drop:
  "SizeOfIPTReplace \<le> length optVal \<Longrightarrow>
   drop SizeOfIPTReplace (with_size sz optVal) = drop SizeOfIPTReplace optVal"
  by (simp add: with_size_def abi)

lemma bytes_at_with_size_low:
  "SizeOfIPTReplace \<le> length optVal \<Longrightarrow> off + n \<le> 40 \<Longrightarrow>
   bytes_at off n (take SizeOfIPTReplace (with_size sz optVal))
     = bytes_at off n (take SizeOfIPTReplace optVal)"
  by (auto simp: with_size_def bytes_at_def abi drop_take min_def)

lemma bytes_at_with_size_high:
  "SizeOfIPTReplace \<le> length optVal \<Longrightarrow> 44 \<le> off \<Longrightarrow>
   bytes_at off n (take SizeOfIPTReplace (with_size sz optVal))
     = bytes_at off n (take SizeOfIPTReplace optVal)"
  by (auto simp: with_size_def bytes_at_def abi drop_take min_def)

lemma bytes_at_with_size_at:
  "SizeOfIPTReplace \<le> length optVal \<Longrightarrow>
   bytes_at 40 4 (take SizeOfIPTReplace (with_size sz optVal)) = put_u32 sz"
  by (auto simp: with_size_def bytes_at_def abi drop_take min_def)

lemma replace_of_with_size:
  assumes "SizeOfIPTReplace \<le> length optVal"
  shows "replace_of (with_size sz optVal) = (replace_of optVal)\<lparr> rp_Size := sz \<rparr>"
proof -
  let ?a = "take SizeOfIPTReplace (with_size sz optVal)"
  let ?b = "take SizeOfIPTReplace optVal"
  note lo = bytes_at_with_size_low [OF assms, where sz = sz]
  note hi = bytes_at_with_size_high [OF assms, where sz = sz]
  have 1: "bytes_at 0 XT_TABLE_MAXNAMELEN ?a = bytes_at 0 XT_TABLE_MAXNAMELEN ?b"
    by (rule lo) (simp add: abi)
  have 2: "bytes_at 32 4 ?a = bytes_at 32 4 ?b" by (rule lo) simp
  have 3: "bytes_at 36 4 ?a = bytes_at 36 4 ?b" by (rule lo) simp
  have 4: "u32_le (bytes_at 40 4 ?a) = sz"
    by (simp only: bytes_at_with_size_at [OF assms] u32_roundtrip)
  have 5: "bytes_at (44 + 4 * i) 4 ?a = bytes_at (44 + 4 * i) 4 ?b" for i
    by (rule hi) simp
  have 6: "bytes_at (64 + 4 * i) 4 ?a = bytes_at (64 + 4 * i) 4 ?b" for i
    by (rule hi) simp
  have 7: "bytes_at 84 4 ?a = bytes_at 84 4 ?b" by (rule hi) simp
  have 8: "bytes_at 88 8 ?a = bytes_at 88 8 ?b" by (rule hi) simp
  show ?thesis
    unfolding replace_of_def decode_IPTReplace_def 1 2 3 4 5 6 7 8 by simp
qed

lemma resolveHooks_cong:
  "rp_HookEntry R = rp_HookEntry R' \<Longrightarrow> rp_Underflow R = rp_Underflow R' \<Longrightarrow>
   resolveHooks R offsets hooks t = resolveHooks R' offsets hooks t"
  by (induction hooks arbitrary: t) (simp_all add: Let_def split: result.splits)

lemma SetEntries_table_with_size:
  assumes "SetEntries_table um optVal = Ok (replace, table)"
  shows "SetEntries_table um (with_size sz optVal) = Ok (replace\<lparr> rp_Size := sz \<rparr>, table)"
proof -
  from assms have len: "SizeOfIPTReplace \<le> length optVal"
    by (auto simp: SetEntries_table_unfold split: if_splits)
  from assms len have nm: "goString (rp_Name (replace_of optVal)) = TablenameFilter"
    by (auto simp: SetEntries_table_unfold split: if_splits)
  let ?R = "replace_of optVal"
  let ?R' = "?R\<lparr> rp_Size := sz \<rparr>"
  from assms len nm obtain t0 offsets t1 where
    p: "parseEntries um (unat (rp_NumEntries ?R)) (drop SizeOfIPTReplace optVal) 0 []
          (EmptyFilterTable ()) = Ok (t0, offsets)"
    and q: "resolveHooks ?R offsets [0..<NF_INET_NUMHOOKS] t0 = Ok t1"
    and c: "rbind (checkChains all_hooks t1) (\<lambda>_. Ok (?R, t1)) = Ok (replace, table)"
    by (auto simp: SetEntries_table_unfold dest!: rbind_Ok)
  from c have e: "replace = ?R" "table = t1" and c': "checkChains all_hooks t1 = Ok ()"
    by (auto dest!: rbind_Ok)
  have q': "resolveHooks ?R' offsets [0..<NF_INET_NUMHOOKS] t0 = Ok t1"
    using q resolveHooks_cong [of ?R' ?R offsets "[0..<NF_INET_NUMHOOKS]" t0] by simp
  have l': "\<not> length (with_size sz optVal) < SizeOfIPTReplace"
    using len by (simp add: with_size_length)
  have n': "goString (rp_Name ?R') = TablenameFilter" "rp_NumEntries ?R' = rp_NumEntries ?R"
    using nm by simp_all
  show ?thesis
    unfolding SetEntries_table_unfold [of um "with_size sz optVal"]
      replace_of_with_size [OF len] with_size_drop [OF len] n'
    using l' by (simp add: p q' c' e)
qed

lemma SetEntries_table_count:
  assumes "SetEntries_table um optVal = Ok (replace, table)"
  shows "length (Rules table) = unat (rp_NumEntries replace)"
proof -
  from assms have len: "SizeOfIPTReplace \<le> length optVal"
    by (auto simp: SetEntries_table_unfold split: if_splits)
  from assms len have nm: "goString (rp_Name (replace_of optVal)) = TablenameFilter"
    by (auto simp: SetEntries_table_unfold split: if_splits)
  let ?R = "replace_of optVal"
  from assms len nm obtain t0 offsets t1 where
    p: "parseEntries um (unat (rp_NumEntries ?R)) (drop SizeOfIPTReplace optVal) 0 []
          (EmptyFilterTable ()) = Ok (t0, offsets)"
    and q: "resolveHooks ?R offsets [0..<NF_INET_NUMHOOKS] t0 = Ok t1"
    and c: "rbind (checkChains all_hooks t1) (\<lambda>_. Ok (?R, t1)) = Ok (replace, table)"
    by (auto simp: SetEntries_table_unfold dest!: rbind_Ok)
  from c have e: "replace = ?R" "table = t1"
    by (auto dest!: rbind_Ok)
  from parsed_table [OF p, of "[0..<NF_INET_NUMHOOKS]"] have
    pt: "filter_shape t0" "unset_hooks [0..<NF_INET_NUMHOOKS] t0"
      "length (Rules t0) = unat (rp_NumEntries ?R)"
    by simp_all
  from resolveHooks_Ok [OF q pt(1) numhooks_list pt(2)] pt(3) e show ?thesis by simp
qed

text \<open>
  C10. Trailing bytes are ignored and the declared total size is not checked. When
  \<^verbatim>\<open>SetEntries\<close> accepts an input, it accepts the input followed by any further bytes,
  with the same result and the same stack afterwards; the table it builds has as many rules
  as the header's \<^verbatim>\<open>NumEntries\<close> declares; and the same input with any other value in
  the header's \<^verbatim>\<open>Size\<close> field is accepted too, giving the same table and a header that
  differs only in \<^verbatim>\<open>Size\<close>.
\<close>

theorem trailing_bytes_ignored:
  "fst (SetEntries um stack optVal) = Ok () \<longrightarrow>
     SetEntries um stack (optVal @ extra) = SetEntries um stack optVal
     \<and> (\<exists>replace table.
           SetEntries_table um optVal = Ok (replace, table)
           \<and> SetEntries_table um (optVal @ extra) = Ok (replace, table)
           \<and> length (Rules table) = unat (rp_NumEntries replace)
           \<and> (\<forall>sz. SetEntries_table um (with_size sz optVal)
                      = Ok (replace\<lparr> rp_Size := sz \<rparr>, table)))"
proof
  assume "fst (SetEntries um stack optVal) = Ok ()"
  then obtain replace table where r: "SetEntries_table um optVal = Ok (replace, table)"
    by (cases "SetEntries_table um optVal") (auto simp: SetEntries_fst)
  note a = SetEntries_table_append [OF r, of extra]
  have "SetEntries um stack (optVal @ extra) = SetEntries um stack optVal"
    by (simp add: SetEntries_def a r)
  with r a SetEntries_table_count [OF r] SetEntries_table_with_size [OF r]
  show "SetEntries um stack (optVal @ extra) = SetEntries um stack optVal
     \<and> (\<exists>replace table.
           SetEntries_table um optVal = Ok (replace, table)
           \<and> SetEntries_table um (optVal @ extra) = Ok (replace, table)
           \<and> length (Rules table) = unat (rp_NumEntries replace)
           \<and> (\<forall>sz. SetEntries_table um (with_size sz optVal)
                      = Ok (replace\<lparr> rp_Size := sz \<rparr>, table)))"
    by blast
qed

theorem trailing_bytes_ignored_witness:
  "fst (SetEntries no_unmarshal empty_stack accept_blob) = Ok ()
   \<and> SetEntries no_unmarshal empty_stack (accept_blob @ [1, 2, 3])
       = SetEntries no_unmarshal empty_stack accept_blob
   \<and> SetEntries_table no_unmarshal (with_size 7 accept_blob)
       = Ok (one_rule_replace 7, one_rule_table)"
proof -
  have 1: "fst (SetEntries no_unmarshal empty_stack accept_blob) = Ok ()"
    by (simp add: SetEntries_fst accept_blob_table)
  with trailing_bytes_ignored [of no_unmarshal empty_stack accept_blob "[1, 2, 3]"]
    accept_blob_table
  have 2: "SetEntries no_unmarshal empty_stack (accept_blob @ [1, 2, 3])
       = SetEntries no_unmarshal empty_stack accept_blob"
    and 3: "SetEntries_table no_unmarshal (with_size 7 accept_blob)
       = Ok ((one_rule_replace 152)\<lparr> rp_Size := 7 \<rparr>, one_rule_table)"
    by auto
  have "(one_rule_replace 152)\<lparr> rp_Size := 7 \<rparr> = one_rule_replace 7"
    by (simp add: one_rule_replace_def)
  with 1 2 3 show ?thesis by simp
qed

section \<open>Hooks and chains\<close>

lemma SetEntries_table_phases:
  assumes "SetEntries_table um optVal = Ok (replace, table)"
  shows "\<exists>t0 offsets. SizeOfIPTReplace \<le> length optVal \<and> replace = replace_of optVal \<and>
     goString (rp_Name replace) = TablenameFilter \<and>
     parseEntries um (unat (rp_NumEntries replace)) (drop SizeOfIPTReplace optVal) 0 []
       (EmptyFilterTable ()) = Ok (t0, offsets) \<and>
     resolveHooks replace offsets [0..<NF_INET_NUMHOOKS] t0 = Ok table \<and>
     checkChains all_hooks table = Ok ()"
proof -
  from assms have len: "SizeOfIPTReplace \<le> length optVal"
    by (auto simp: SetEntries_table_unfold split: if_splits)
  from assms len have nm: "goString (rp_Name (replace_of optVal)) = TablenameFilter"
    by (auto simp: SetEntries_table_unfold split: if_splits)
  let ?R = "replace_of optVal"
  from assms len nm obtain t0 offsets t1 where
    p: "parseEntries um (unat (rp_NumEntries ?R)) (drop SizeOfIPTReplace optVal) 0 []
          (EmptyFilterTable ()) = Ok (t0, offsets)"
    and q: "resolveHooks ?R offsets [0..<NF_INET_NUMHOOKS] t0 = Ok t1"
    and c: "rbind (checkChains all_hooks t1) (\<lambda>_. Ok (?R, t1)) = Ok (replace, table)"
    by (auto simp: SetEntries_table_unfold dest!: rbind_Ok)
  from c have e: "replace = ?R" "table = t1" and c': "checkChains all_hooks t1 = Ok ()"
    by (auto dest!: rbind_Ok)
  from len nm p q c' e show ?thesis by blast
qed

lemma SetEntries_Err:
  "SetEntries_table um optVal = Err e \<Longrightarrow> SetEntries um stack optVal = (Err ErrInvalidArgument, stack)"
  using SetEntries_table_Err [of um optVal e] by (simp add: SetEntries_def)

lemma hook_unset_rejected:
  assumes len: "SizeOfIPTReplace \<le> length optVal"
    and p: "parseEntries um (unat (rp_NumEntries (replace_of optVal)))
              (drop SizeOfIPTReplace optVal) 0 [] (EmptyFilterTable ()) = Ok (table, offsets)"
    and h: "hook < NF_INET_NUMHOOKS" "ValidHooks table AND push_bit hook 1 \<noteq> 0"
    and u: "rp_HookEntry (replace_of optVal) ! hook \<notin> set offsets
            \<or> rp_Underflow (replace_of optVal) ! hook \<notin> set offsets"
  shows "SetEntries_table um optVal = Err ErrInvalidArgument"
proof -
  from parsed_table [OF p, of "[0..<NF_INET_NUMHOOKS]"] have
    pt: "filter_shape table" "unset_hooks [0..<NF_INET_NUMHOOKS] table"
    by simp_all
  from h valid_hook_filter [OF pt(1) h(1)] have v: "all_hooks ! hook \<in> {Input, Forward, Output}"
    by simp
  from h(1) have m: "hook \<in> set [0..<NF_INET_NUMHOOKS]" by simp
  from resolveHooks_unset [OF pt(1) numhooks_list pt(2) m v u] have
    "resolveHooks (replace_of optVal) offsets [0..<NF_INET_NUMHOOKS] table = Err ErrInvalidArgument" .
  then show ?thesis
    using len p by (simp add: SetEntries_table_unfold)
qed

text \<open>
  C7. Hook completeness. Take an input whose entries parse, with the recorded starting
  offsets \<open>offsets\<close>. If for some hook whose bit is set in the table's valid-hooks mask
  the header's declared entry offset is none of these offsets, or its declared underflow
  offset is none of them, \<^verbatim>\<open>SetEntries\<close> returns \<^verbatim>\<open>syserr.ErrInvalidArgument\<close> and
  leaves the stack as it was. When \<^verbatim>\<open>SetEntries\<close> succeeds, every hook whose bit is set
  has an entry rule index and an underflow rule index in the installed table, each the
  index of a rule whose recorded offset is the declared one.
\<close>

theorem hook_completeness:
  "(SizeOfIPTReplace \<le> length optVal
      \<and> parseEntries um (unat (rp_NumEntries (replace_of optVal)))
            (drop SizeOfIPTReplace optVal) 0 [] (EmptyFilterTable ()) = Ok (table, offsets)
      \<and> hook < NF_INET_NUMHOOKS \<and> ValidHooks table AND push_bit hook 1 \<noteq> 0
      \<and> (rp_HookEntry (replace_of optVal) ! hook \<notin> set offsets
           \<or> rp_Underflow (replace_of optVal) ! hook \<notin> set offsets)
     \<longrightarrow> SetEntries um stack optVal = (Err ErrInvalidArgument, stack))
   \<and> (fst (SetEntries um stack optVal) = Ok () \<longrightarrow>
        (\<exists>replace installed t0 offs.
           SetEntries_table um optVal = Ok (replace, installed)
           \<and> parseEntries um (unat (rp_NumEntries replace)) (drop SizeOfIPTReplace optVal) 0 []
                (EmptyFilterTable ()) = Ok (t0, offs)
           \<and> (\<forall>h<NF_INET_NUMHOOKS. ValidHooks installed AND push_bit h 1 \<noteq> 0 \<longrightarrow>
                 (\<exists>hk i j. hookFromLinux h = Ok hk
                    \<and> i < length (Rules installed) \<and> j < length (Rules installed)
                    \<and> offs ! i = rp_HookEntry replace ! h
                    \<and> offs ! j = rp_Underflow replace ! h
                    \<and> BuiltinChains installed hk = Some (int i)
                    \<and> Underflows installed hk = Some (int j)))))"
proof (intro conjI impI)
  assume a: "SizeOfIPTReplace \<le> length optVal
      \<and> parseEntries um (unat (rp_NumEntries (replace_of optVal)))
            (drop SizeOfIPTReplace optVal) 0 [] (EmptyFilterTable ()) = Ok (table, offsets)
      \<and> hook < NF_INET_NUMHOOKS \<and> ValidHooks table AND push_bit hook 1 \<noteq> 0
      \<and> (rp_HookEntry (replace_of optVal) ! hook \<notin> set offsets
           \<or> rp_Underflow (replace_of optVal) ! hook \<notin> set offsets)"
  then have "SetEntries_table um optVal = Err ErrInvalidArgument"
    using hook_unset_rejected [of optVal um table offsets hook] by blast
  then show "SetEntries um stack optVal = (Err ErrInvalidArgument, stack)"
    by (rule SetEntries_Err)
next
  assume "fst (SetEntries um stack optVal) = Ok ()"
  then obtain replace installed where r: "SetEntries_table um optVal = Ok (replace, installed)"
    by (cases "SetEntries_table um optVal") (auto simp: SetEntries_fst)
  from SetEntries_table_phases [OF r] obtain t0 offs where
    p: "parseEntries um (unat (rp_NumEntries replace)) (drop SizeOfIPTReplace optVal) 0 []
       (EmptyFilterTable ()) = Ok (t0, offs)"
    and q: "resolveHooks replace offs [0..<NF_INET_NUMHOOKS] t0 = Ok installed"
    by blast
  from parsed_table [OF p, of "[0..<NF_INET_NUMHOOKS]"] have
    pt: "filter_shape t0" "unset_hooks [0..<NF_INET_NUMHOOKS] t0"
      "length offs = length (Rules t0)"
    by simp_all
  note ok = resolveHooks_Ok [OF q pt(1) numhooks_list pt(2)]
  from ok have fs: "filter_shape installed" and ru: "Rules installed = Rules t0" by simp_all
  have "\<forall>h<NF_INET_NUMHOOKS. ValidHooks installed AND push_bit h 1 \<noteq> 0 \<longrightarrow>
                 (\<exists>hk i j. hookFromLinux h = Ok hk
                    \<and> i < length (Rules installed) \<and> j < length (Rules installed)
                    \<and> offs ! i = rp_HookEntry replace ! h
                    \<and> offs ! j = rp_Underflow replace ! h
                    \<and> BuiltinChains installed hk = Some (int i)
                    \<and> Underflows installed hk = Some (int j))"
  proof (intro allI impI)
    fix h assume h: "h < NF_INET_NUMHOOKS" "ValidHooks installed AND push_bit h 1 \<noteq> 0"
    from h valid_hook_filter [OF fs h(1)] have v: "all_hooks ! h \<in> {Input, Forward, Output}"
      by simp
    from h(1) have "h \<in> set [0..<NF_INET_NUMHOOKS]" by simp
    with ok v obtain i j where
      "i < length offs" "j < length offs" "offs ! i = rp_HookEntry replace ! h"
      "offs ! j = rp_Underflow replace ! h"
      "BuiltinChains installed (all_hooks ! h) = Some (int i)"
      "Underflows installed (all_hooks ! h) = Some (int j)"
      by blast
    with hookFromLinux_Ok [OF h(1)] pt(3) ru
    show "\<exists>hk i j. hookFromLinux h = Ok hk
                    \<and> i < length (Rules installed) \<and> j < length (Rules installed)
                    \<and> offs ! i = rp_HookEntry replace ! h
                    \<and> offs ! j = rp_Underflow replace ! h
                    \<and> BuiltinChains installed hk = Some (int i)
                    \<and> Underflows installed hk = Some (int j)"
      by auto
  qed
  with r p show "\<exists>replace installed t0 offs.
           SetEntries_table um optVal = Ok (replace, installed)
           \<and> parseEntries um (unat (rp_NumEntries replace)) (drop SizeOfIPTReplace optVal) 0 []
                (EmptyFilterTable ()) = Ok (t0, offs)
           \<and> (\<forall>h<NF_INET_NUMHOOKS. ValidHooks installed AND push_bit h 1 \<noteq> 0 \<longrightarrow>
                 (\<exists>hk i j. hookFromLinux h = Ok hk
                    \<and> i < length (Rules installed) \<and> j < length (Rules installed)
                    \<and> offs ! i = rp_HookEntry replace ! h
                    \<and> offs ! j = rp_Underflow replace ! h
                    \<and> BuiltinChains installed hk = Some (int i)
                    \<and> Underflows installed hk = Some (int j)))"
    by blast
qed

lemma unset_hook_blob_replace:
  "replace_of unset_hook_blob =
     \<lparr> rp_Name = copy_into 32 (str ''filter''), rp_ValidHooks = 14, rp_NumEntries = 1,
       rp_Size = 152, rp_HookEntry = [0, 8, 0, 0, 0], rp_Underflow = [0, 0, 0, 0, 0],
       rp_NumCounters = 0, rp_Counters = 0 \<rparr>"
  unfolding unset_hook_blob_def by (rule replace_of_header)

lemma unset_hook_blob_drop:
  "drop SizeOfIPTReplace unset_hook_blob = standard_entry (- 2)"
  by (simp add: unset_hook_blob_def replace_header_length abi)

theorem hook_completeness_witness:
  "SetEntries no_unmarshal empty_stack unset_hook_blob = (Err ErrInvalidArgument, empty_stack)
   \<and> fst (SetEntries no_unmarshal empty_stack accept_blob) = Ok ()
   \<and> (\<exists>i j. i < length (Rules one_rule_table) \<and> j < length (Rules one_rule_table)
          \<and> BuiltinChains one_rule_table Input = Some (int i)
          \<and> Underflows one_rule_table Input = Some (int j))"
proof -
  let ?t = "(EmptyFilterTable ())\<lparr> Rules := [accept_rule] \<rparr>"
  have len: "SizeOfIPTReplace \<le> length unset_hook_blob"
    by (simp add: unset_hook_blob_def replace_header_length standard_entry_length abi)
  have p: "parseEntries no_unmarshal (unat (rp_NumEntries (replace_of unset_hook_blob)))
            (drop SizeOfIPTReplace unset_hook_blob) 0 [] (EmptyFilterTable ()) = Ok (?t, [0])"
    unfolding unset_hook_blob_replace unset_hook_blob_drop
    using parseEntries_one [of "[]"] by simp
  have h: "(1 :: nat) < NF_INET_NUMHOOKS" by (simp add: abi)
  from parsed_table [OF p, of "[]"] have "filter_shape ?t" by simp
  then have v: "ValidHooks ?t AND push_bit (1 :: nat) 1 \<noteq> 0"
    by (simp add: ValidHooks_filter)
  have u: "rp_HookEntry (replace_of unset_hook_blob) ! 1 \<notin> set [0]"
    by (simp add: unset_hook_blob_replace)
  note t1 = hook_completeness [of unset_hook_blob no_unmarshal ?t "[0]" 1 empty_stack]
  from t1 len p h v u have
    1: "SetEntries no_unmarshal empty_stack unset_hook_blob = (Err ErrInvalidArgument, empty_stack)"
    by blast
  have 2: "fst (SetEntries no_unmarshal empty_stack accept_blob) = Ok ()"
    by (simp add: SetEntries_fst accept_blob_table)
  have i: "(1 :: nat) < NF_INET_NUMHOOKS \<and> ValidHooks one_rule_table AND push_bit (1 :: nat) 1 \<noteq> 0"
    by (simp add: abi ValidHooks_def one_rule_table_def all_hooks_def)
  have k: "hookFromLinux 1 = Ok Input"
    by (simp add: hookFromLinux_def abi)
  note t2 = hook_completeness [of accept_blob no_unmarshal ?t "[0]" 1 empty_stack]
  from t2 2 accept_blob_table i k have
    3: "\<exists>i j. i < length (Rules one_rule_table) \<and> j < length (Rules one_rule_table)
          \<and> BuiltinChains one_rule_table Input = Some (int i)
          \<and> Underflows one_rule_table Input = Some (int j)"
    by fastforce
  from 1 2 3 show ?thesis by blast
qed

lemma chain_policy_rejected:
  assumes len: "SizeOfIPTReplace \<le> length optVal"
    and p: "parseEntries um (unat (rp_NumEntries (replace_of optVal)))
              (drop SizeOfIPTReplace optVal) 0 [] (EmptyFilterTable ()) = Ok (table, offsets)"
    and r: "resolveHooks (replace_of optVal) offsets [0..<NF_INET_NUMHOOKS] table = Ok resolved"
    and h: "hook \<noteq> Input" "BuiltinChains resolved hook = Some ruleIdx"
      "Target (Rules resolved ! nat ruleIdx) \<noteq> UnconditionalAcceptTarget"
  shows "SetEntries_table um optVal = Err ErrInvalidArgument"
proof -
  have m: "hook \<in> set all_hooks" by (cases hook) (simp_all add: all_hooks_def)
  from checkChains_reject [OF resolved_in_range [OF p r, of all_hooks]] m h
  have "checkChains all_hooks resolved = Err ErrInvalidArgument" by blast
  then show ?thesis
    using len p r by (simp add: SetEntries_table_unfold)
qed

text \<open>
  C9. The policy for the chains other than input. Take an input whose entries parse and
  whose hooks resolve. If some builtin chain other than \<^verbatim>\<open>Input\<close> has an entry rule
  whose target is not the unconditional accept target, \<^verbatim>\<open>SetEntries\<close> returns
  \<^verbatim>\<open>syserr.ErrInvalidArgument\<close> and leaves the stack as it was. When \<^verbatim>\<open>SetEntries\<close>
  succeeds, the entry rule of every builtin chain other than \<^verbatim>\<open>Input\<close> is a rule of the
  installed table whose target is the unconditional accept target.
\<close>

theorem non_input_chains_accept:
  "(SizeOfIPTReplace \<le> length optVal
      \<and> parseEntries um (unat (rp_NumEntries (replace_of optVal)))
            (drop SizeOfIPTReplace optVal) 0 [] (EmptyFilterTable ()) = Ok (table, offsets)
      \<and> resolveHooks (replace_of optVal) offsets [0..<NF_INET_NUMHOOKS] table = Ok resolved
      \<and> hook \<noteq> Input \<and> BuiltinChains resolved hook = Some ruleIdx
      \<and> Target (Rules resolved ! nat ruleIdx) \<noteq> UnconditionalAcceptTarget
     \<longrightarrow> SetEntries um stack optVal = (Err ErrInvalidArgument, stack))
   \<and> (fst (SetEntries um stack optVal) = Ok () \<longrightarrow>
        (\<exists>replace installed.
           SetEntries_table um optVal = Ok (replace, installed)
           \<and> (\<forall>h i. h \<noteq> Input \<and> BuiltinChains installed h = Some i \<longrightarrow>
                 0 \<le> i \<and> i < int (length (Rules installed))
                 \<and> Target (Rules installed ! nat i) = UnconditionalAcceptTarget)))"
proof (intro conjI impI)
  assume "SizeOfIPTReplace \<le> length optVal
      \<and> parseEntries um (unat (rp_NumEntries (replace_of optVal)))
            (drop SizeOfIPTReplace optVal) 0 [] (EmptyFilterTable ()) = Ok (table, offsets)
      \<and> resolveHooks (replace_of optVal) offsets [0..<NF_INET_NUMHOOKS] table = Ok resolved
      \<and> hook \<noteq> Input \<and> BuiltinChains resolved hook = Some ruleIdx
      \<and> Target (Rules resolved ! nat ruleIdx) \<noteq> UnconditionalAcceptTarget"
  then have "SetEntries_table um optVal = Err ErrInvalidArgument"
    using chain_policy_rejected [of optVal um table offsets resolved hook ruleIdx] by blast
  then show "SetEntries um stack optVal = (Err ErrInvalidArgument, stack)"
    by (rule SetEntries_Err)
next
  assume "fst (SetEntries um stack optVal) = Ok ()"
  then obtain replace installed where r: "SetEntries_table um optVal = Ok (replace, installed)"
    by (cases "SetEntries_table um optVal") (auto simp: SetEntries_fst)
  from SetEntries_table_phases [OF r] have c: "checkChains all_hooks installed = Ok ()"
    by blast
  have "\<forall>h i. h \<noteq> Input \<and> BuiltinChains installed h = Some i \<longrightarrow>
                 0 \<le> i \<and> i < int (length (Rules installed))
                 \<and> Target (Rules installed ! nat i) = UnconditionalAcceptTarget"
  proof (intro allI impI)
    fix h i assume a: "h \<noteq> Input \<and> BuiltinChains installed h = Some i"
    have "h \<in> set all_hooks" by (cases h) (simp_all add: all_hooks_def)
    with checkChains_Ok [OF c] a
    show "0 \<le> i \<and> i < int (length (Rules installed))
                 \<and> Target (Rules installed ! nat i) = UnconditionalAcceptTarget"
      by blast
  qed
  with r show "\<exists>replace installed.
           SetEntries_table um optVal = Ok (replace, installed)
           \<and> (\<forall>h i. h \<noteq> Input \<and> BuiltinChains installed h = Some i \<longrightarrow>
                 0 \<le> i \<and> i < int (length (Rules installed))
                 \<and> Target (Rules installed ! nat i) = UnconditionalAcceptTarget)"
    by blast
qed

lemma drop_forward_blob_replace:
  "replace_of drop_forward_blob =
     \<lparr> rp_Name = copy_into 32 (str ''filter''), rp_ValidHooks = 14, rp_NumEntries = 2,
       rp_Size = 304, rp_HookEntry = [0, 0, 152, 0, 0], rp_Underflow = [0, 0, 0, 0, 0],
       rp_NumCounters = 0, rp_Counters = 0 \<rparr>"
  unfolding drop_forward_blob_def by (rule replace_of_header)

lemma drop_forward_blob_drop:
  "drop SizeOfIPTReplace drop_forward_blob = standard_entry (- 2) @ standard_entry (- 1)"
  by (simp add: drop_forward_blob_def replace_header_length abi)

lemma resolve_forward:
  "rp_HookEntry replace = [0, 0, 152, 0, 0] \<Longrightarrow> rp_Underflow replace = [0, 0, 0, 0, 0] \<Longrightarrow>
   resolveHooks replace [0, 152] [0..<NF_INET_NUMHOOKS] ((EmptyFilterTable ())\<lparr> Rules := rs \<rparr>) =
     Ok \<lparr> Rules = rs, BuiltinChains = [Input \<mapsto> 0, Forward \<mapsto> 1, Output \<mapsto> 0],
          Underflows = [Input \<mapsto> 0, Forward \<mapsto> 0, Output \<mapsto> 0], Metadata = None \<rparr>"
  by (simp add: abi upt_rec ValidHooks_def all_hooks_def EmptyFilterTable_def hookFromLinux_def
      map_get_def HookUnset_def Let_def)

theorem non_input_chains_accept_witness:
  "SetEntries no_unmarshal empty_stack drop_forward_blob = (Err ErrInvalidArgument, empty_stack)
   \<and> fst (SetEntries no_unmarshal empty_stack accept_blob) = Ok ()
   \<and> Target (Rules one_rule_table ! nat 0) = UnconditionalAcceptTarget"
proof -
  let ?t = "(EmptyFilterTable ())\<lparr> Rules := [accept_rule, drop_rule] \<rparr>"
  let ?r = "\<lparr> Rules = [accept_rule, drop_rule],
              BuiltinChains = [Input \<mapsto> 0, Forward \<mapsto> 1, Output \<mapsto> 0],
              Underflows = [Input \<mapsto> 0, Forward \<mapsto> 0, Output \<mapsto> 0], Metadata = None \<rparr>"
  have len: "SizeOfIPTReplace \<le> length drop_forward_blob"
    by (simp add: drop_forward_blob_def replace_header_length standard_entry_length abi)
  have p: "parseEntries no_unmarshal (unat (rp_NumEntries (replace_of drop_forward_blob)))
            (drop SizeOfIPTReplace drop_forward_blob) 0 [] (EmptyFilterTable ()) = Ok (?t, [0, 152])"
  proof -
    have n: "unat (2 :: 32 word) = Suc (Suc 0)" by simp
    have e: "parseEntries no_unmarshal (unat (2 :: 32 word))
               (standard_entry (- 2) @ standard_entry (- 1)) 0 [] (EmptyFilterTable ())
             = Ok (?t, [0, 152])"
      unfolding n using parseEntries_two [of "[]"] unfolding append_Nil2 .
    show ?thesis
      unfolding drop_forward_blob_replace drop_forward_blob_drop IPTReplace.select_convs
      by (rule e)
  qed
  have r: "resolveHooks (replace_of drop_forward_blob) [0, 152] [0..<NF_INET_NUMHOOKS] ?t = Ok ?r"
    by (rule resolve_forward) (simp_all add: drop_forward_blob_replace)
  have h: "Forward \<noteq> Input" "BuiltinChains ?r Forward = Some 1"
    "Target (Rules ?r ! nat 1) \<noteq> UnconditionalAcceptTarget"
    by (simp_all add: drop_rule_def)
  note t1 = non_input_chains_accept [of drop_forward_blob no_unmarshal ?t "[0, 152]" ?r Forward 1
      empty_stack]
  from t1 len p r h have
    1: "SetEntries no_unmarshal empty_stack drop_forward_blob = (Err ErrInvalidArgument, empty_stack)"
    by blast
  have 2: "fst (SetEntries no_unmarshal empty_stack accept_blob) = Ok ()"
    by (simp add: SetEntries_fst accept_blob_table)
  have f: "Forward \<noteq> Input \<and> BuiltinChains one_rule_table Forward = Some 0"
    by (simp add: one_rule_table_def)
  note t2 = non_input_chains_accept [of accept_blob no_unmarshal ?t "[0, 152]" ?r Forward 1
      empty_stack]
  from t2 2 accept_blob_table f have
    3: "Target (Rules one_rule_table ! nat 0) = UnconditionalAcceptTarget"
    by fastforce
  from 1 2 3 show ?thesis by blast
qed

end
